theory Spec2Isabelle
  imports
    Complex_Main
    "HOL-Library.Multiset"
    "HOL-Library.List_Lexorder"
    "HOL-Library.Char_ord"
    "HOL-Library.Word"
begin

unbundle bit_operations_syntax

section \<open>Strings\<close>

text \<open>
  A Go \<open>string\<close> is a sequence of bytes; it is modelled as \<^typ>\<open>string\<close> (a list of
  \<^typ>\<open>char\<close>, one per byte).  Go compares strings byte-wise and lexicographically,
  a proper prefix being smaller; this is the order that \<open>List_Lexorder\<close> and
  \<open>Char_ord\<close> put on \<^typ>\<open>string\<close>, so Go's \<open>s < t\<close> is written \<open>s < t\<close>.
\<close>

text \<open>\<open>strings.Contains(s, substr)\<close>: \<open>substr\<close> occurs in \<open>s\<close> as a contiguous block.\<close>

fun Contains :: "string \<Rightarrow> string \<Rightarrow> bool" where
  "Contains [] substr = (substr = [])"
| "Contains (c # s) substr = (take (length substr) (c # s) = substr \<or> Contains s substr)"

text \<open>\<open>strings.Join(elems, sep)\<close>.\<close>

fun Join :: "string list \<Rightarrow> string \<Rightarrow> string" where
  "Join [] sep = []"
| "Join [e] sep = e"
| "Join (e # f # elems) sep = e @ sep @ Join (f # elems) sep"

text \<open>
  \<open>strings.ToLower\<close> on the ASCII range: the bytes \<open>A\<close> to \<open>Z\<close> are mapped to \<open>a\<close> to
  \<open>z\<close>.  Bytes from \<open>0x80\<close> on (the encodings of non-ASCII code points) are left as
  they are; Go would also lower-case non-ASCII letters.
\<close>

definition toLowerByte :: "char \<Rightarrow> char" where
  "toLowerByte c =
     (if 65 \<le> (of_char c :: nat) \<and> (of_char c :: nat) \<le> 90
      then char_of ((of_char c :: nat) + 32) else c)"

definition ToLower :: "string \<Rightarrow> string" where
  "ToLower s = map toLowerByte s"

section \<open>The log preprocessor\<close>

subsection \<open>Internal types\<close>

text \<open>
  The structs of the preprocessor.  A \<open>*string\<close> field is a \<^typ>\<open>string option\<close>
  (\<open>nil\<close> is \<^const>\<open>None\<close>).  Field names that several structs share are prefixed
  in all but \<open>RawLogGo\<close>: \<open>LogPatternGo.ErrorClass\<close> is \<open>PatternErrorClass\<close>,
  \<open>SequenceItemGo.Timestamp\<close> and \<open>.Message\<close> are \<open>SeqTimestamp\<close> and \<open>SeqMessage\<close>.
  \<open>Count\<close> and \<open>SequenceIndex\<close> are Go \<open>int\<close>s that count elements of a slice held in
  memory, so they never wrap around; they are \<^typ>\<open>int\<close> and \<^typ>\<open>nat\<close>.
  The two \<open>float64\<close> metrics only ever hold the literals \<open>0.0\<close>, \<open>3.0\<close> and \<open>5.0\<close>.
\<close>

record RawLogGo =
  Timestamp :: string
  Level :: string
  Service :: string
  Pod :: "string option"
  Message :: string
  ErrorClass :: "string option"

record LogPatternGo =
  Pattern :: string
  Count :: int
  FirstOccurrence :: string
  LastOccurrence :: string
  PatternErrorClass :: "string option"

record SequenceItemGo =
  SeqTimestamp :: string
  Type :: string
  SeqMessage :: string
  SequenceIndex :: nat

record MetricsGo =
  ErrorRateZ :: real
  LatencyZ :: real

record CorrelationBundleGo =
  WindowStart :: string
  WindowEnd :: string
  RootService :: "string option"
  AffectedServices :: "string list"
  LogPatterns :: "LogPatternGo list"
  Events :: "string list"
  Metrics :: MetricsGo
  DependencyGraph :: "string list"
  Sequence :: "SequenceItemGo list"
  DerivedRootCauseHint :: string

text \<open>An \<open>error\<close> made by \<open>errors.New\<close>, with its message.\<close>

datatype error = Error string

text \<open>
  A raw entry is a \<open>map[string]interface{}\<close> decoded from JSON: a finite map from keys
  to values of any JSON type.  The type assertion \<open>entry[k].(string)\<close> succeeds for a
  string value only.
\<close>

datatype jvalue =
    JString string
  | JNumber real
  | JBool bool
  | JNull
  | JArray "jvalue list"
  | JObject "(string \<times> jvalue) list"

type_synonym entry = "string \<rightharpoonup> jvalue"

fun asString :: "jvalue option \<Rightarrow> string option" where
  "asString (Some (JString v)) = Some v"
| "asString _ = None"

subsection \<open>ParseLogs\<close>

text \<open>
  The body of the loop of \<open>ParseLogs\<close> for one entry.  \<open>now\<close> is what
  \<open>time.Now().UTC().Format(time.RFC3339)\<close> returns in that iteration.
\<close>

definition parseEntry :: "string \<Rightarrow> entry \<Rightarrow> RawLogGo" where
  "parseEntry now entry =
     \<lparr> Timestamp =
         (case asString (entry ''timestamp'') of
            Some v \<Rightarrow> if v \<noteq> [] then v else now
          | None \<Rightarrow> now),
       Level =
         (case asString (entry ''level'') of
            Some v \<Rightarrow> if v \<noteq> [] then v else ''INFO''
          | None \<Rightarrow> ''INFO''),
       Service =
         (case asString (entry ''service'') of
            Some v \<Rightarrow> if v \<noteq> [] then v else ''unknown''
          | None \<Rightarrow> ''unknown''),
       Pod = asString (entry ''pod''),
       Message =
         (case asString (entry ''message'') of Some v \<Rightarrow> v | None \<Rightarrow> []),
       ErrorClass = asString (entry ''errorClass'') \<rparr>"

text \<open>The loop over \<open>rawData\<close>; the \<open>i\<close>-th iteration reads the clock as \<open>clock i\<close>.\<close>

fun parseEntries :: "(nat \<Rightarrow> string) \<Rightarrow> nat \<Rightarrow> entry list \<Rightarrow> RawLogGo list" where
  "parseEntries clock i [] = []"
| "parseEntries clock i (e # es) = parseEntry (clock i) e # parseEntries clock (Suc i) es"

text \<open>
  \<open>sort.Slice\<close> belongs to Go's standard library, not to this program, so \<open>ParseLogs\<close>
  takes it as a parameter: a function from the \<open>less\<close> closure and the slice to the
  sorted slice.  The closure of \<open>ParseLogs\<close> compares two elements by \<open>Timestamp\<close>.
\<close>

type_synonym sorter = "(RawLogGo \<Rightarrow> RawLogGo \<Rightarrow> bool) \<Rightarrow> RawLogGo list \<Rightarrow> RawLogGo list"

definition lessTimestamp :: "RawLogGo \<Rightarrow> RawLogGo \<Rightarrow> bool" where
  "lessTimestamp a b = (Timestamp a < Timestamp b)"

text \<open>\<open>rawData\<close> is \<^const>\<open>None\<close> for the \<open>nil\<close> slice.\<close>

definition ParseLogs :: "sorter \<Rightarrow> (nat \<Rightarrow> string) \<Rightarrow> entry list option \<Rightarrow> error + RawLogGo list" where
  "ParseLogs sort_Slice clock rawData =
     (case rawData of
        None \<Rightarrow> Inl (Error ''rawData is nil'')
      | Some entries \<Rightarrow> Inr (sort_Slice lessTimestamp (parseEntries clock 0 entries)))"

text \<open>
  What the documentation of \<open>sort.Slice\<close> promises for the closure of \<open>ParseLogs\<close>: the
  result holds the same elements and is in ascending order of \<open>Timestamp\<close>.  It says
  that the sort is not guaranteed to be stable.
\<close>

definition sortsByTimestamp :: "sorter \<Rightarrow> bool" where
  "sortsByTimestamp sort_Slice =
     (\<forall>xs. mset (sort_Slice lessTimestamp xs) = mset xs \<and>
           sorted (map Timestamp (sort_Slice lessTimestamp xs)))"

subsection \<open>MinePatterns\<close>

text \<open>One iteration of the loop of \<open>MinePatterns\<close> on \<open>patternMap\<close>.\<close>

definition mineStep :: "(string \<rightharpoonup> LogPatternGo) \<Rightarrow> RawLogGo \<Rightarrow> (string \<rightharpoonup> LogPatternGo)" where
  "mineStep patternMap lg =
     (let key = Message lg;
          p0 = (case patternMap key of
                  Some p \<Rightarrow> p
                | None \<Rightarrow> \<lparr> Pattern = key, Count = 0,
                            FirstOccurrence = Timestamp lg,
                            LastOccurrence = Timestamp lg,
                            PatternErrorClass = ErrorClass lg \<rparr>);
          p1 = p0 \<lparr> Count := Count p0 + 1 \<rparr>;
          p2 = (if Timestamp lg < FirstOccurrence p1
                then p1 \<lparr> FirstOccurrence := Timestamp lg \<rparr> else p1);
          p3 = (if Timestamp lg > LastOccurrence p2
                then p2 \<lparr> LastOccurrence := Timestamp lg \<rparr> else p2)
      in patternMap (key \<mapsto> p3))"

definition minePatternMap :: "RawLogGo list \<Rightarrow> (string \<rightharpoonup> LogPatternGo)" where
  "minePatternMap logs = foldl mineStep Map.empty logs"

text \<open>
  The second loop collects the values of \<open>patternMap\<close>.  Go leaves the iteration order
  of a map unspecified; the model visits the keys in the order \<open>remdups\<close> gives them,
  and no theorem below depends on that order.
\<close>

definition MinePatterns :: "RawLogGo list \<Rightarrow> LogPatternGo list" where
  "MinePatterns logs =
     concat (map (\<lambda>key. case minePatternMap logs key of Some p \<Rightarrow> [p] | None \<Rightarrow> [])
                 (remdups (map Message logs)))"

subsection \<open>CreateBundle\<close>

fun sequenceFrom :: "nat \<Rightarrow> RawLogGo list \<Rightarrow> SequenceItemGo list" where
  "sequenceFrom i [] = []"
| "sequenceFrom i (lg # logs) =
     \<lparr> SeqTimestamp = Timestamp lg, Type = ''log'',
       SeqMessage = ''['' @ Service lg @ ''] '' @ Message lg,
       SequenceIndex = i \<rparr> # sequenceFrom (Suc i) logs"

definition isErrorLevel :: "RawLogGo \<Rightarrow> bool" where
  "isErrorLevel lg =
     (Level lg = ''ERROR'' \<or> Level lg = ''FATAL'' \<or> Level lg = ''CRITICAL'')"

definition findRootService :: "RawLogGo list \<Rightarrow> string option" where
  "findRootService logs = map_option Service (find isErrorLevel logs)"

text \<open>
  \<open>AffectedServices\<close> are the keys of \<open>affectedServicesMap\<close>, again in an order Go leaves
  unspecified.
\<close>

definition CreateBundle :: "RawLogGo list \<Rightarrow> LogPatternGo list \<Rightarrow> error + CorrelationBundleGo" where
  "CreateBundle logs patterns =
     (if length logs = 0 then Inl (Error ''cannot create bundle from empty logs'')
      else
        let windowStart = Timestamp (logs ! 0);
            windowEnd = Timestamp (logs ! (length logs - 1));
            affectedServices = remdups (map Service logs);
            sequence = sequenceFrom 0 logs;
            rootService = findRootService logs;
            fullText = ToLower (Join (map Message logs) '' '');
            latencyZ = (if Contains fullText ''timeout'' \<or> Contains fullText ''messages''
                        then 3 else 0);
            errorRateZ = (if find (\<lambda>l. Level l = ''ERROR'') logs \<noteq> None then 5 else 0)
        in Inr \<lparr> WindowStart = windowStart,
                 WindowEnd = windowEnd,
                 RootService = rootService,
                 AffectedServices = affectedServices,
                 LogPatterns = patterns,
                 Events = [],
                 Metrics = \<lparr> ErrorRateZ = errorRateZ, LatencyZ = latencyZ \<rparr>,
                 DependencyGraph = affectedServices,
                 Sequence = sequence,
                 DerivedRootCauseHint =
                   (case rootService of
                      Some s \<Rightarrow> ''Issue detected in '' @ s
                    | None \<Rightarrow> ''Unknown issue'') \<rparr>)"

subsection \<open>Process\<close>

definition Process :: "sorter \<Rightarrow> (nat \<Rightarrow> string) \<Rightarrow> entry list option \<Rightarrow> error + CorrelationBundleGo" where
  "Process sort_Slice clock rawData =
     (case ParseLogs sort_Slice clock rawData of
        Inl err \<Rightarrow> Inl err
      | Inr logs \<Rightarrow>
          (case CreateBundle logs (MinePatterns logs) of
             Inl err \<Rightarrow> Inl err
           | Inr bundle \<Rightarrow> Inr bundle))"

subsection \<open>Reading the results\<close>

text \<open>
  The count that a list of patterns records for a message key: the sum of \<open>Count\<close> over
  the patterns with that key, \<open>0\<close> when there is none.
\<close>

definition patternCount :: "LogPatternGo list \<Rightarrow> string \<Rightarrow> int" where
  "patternCount patterns key = sum_list (map Count (filter (\<lambda>p. Pattern p = key) patterns))"

text \<open>The same reading on \<open>patternMap\<close>, and the invariant that a pattern sits at its key.\<close>

definition mapCount :: "(string \<rightharpoonup> LogPatternGo) \<Rightarrow> string \<Rightarrow> int" where
  "mapCount m key = (case m key of None \<Rightarrow> 0 | Some p \<Rightarrow> Count p)"

definition keyed :: "(string \<rightharpoonup> LogPatternGo) \<Rightarrow> bool" where
  "keyed m = (\<forall>k p. m k = Some p \<longrightarrow> Pattern p = k)"

subsection \<open>Instances\<close>

text \<open>
  A sorter that meets \<^const>\<open>sortsByTimestamp\<close>: insertion sort, written on lists.
\<close>

fun insertBy :: "('a \<Rightarrow> 'a \<Rightarrow> bool) \<Rightarrow> 'a \<Rightarrow> 'a list \<Rightarrow> 'a list" where
  "insertBy lessFn x [] = [x]"
| "insertBy lessFn x (y # ys) = (if lessFn y x then y # insertBy lessFn x ys else x # y # ys)"

definition insertionSort :: "('a \<Rightarrow> 'a \<Rightarrow> bool) \<Rightarrow> 'a list \<Rightarrow> 'a list" where
  "insertionSort lessFn xs = foldr (insertBy lessFn) xs []"

text \<open>
  The raw entry that the JSON object with the four string members \<open>timestamp\<close>,
  \<open>level\<close>, \<open>service\<close> and \<open>message\<close> decodes to.
\<close>

definition rawEntry :: "string \<Rightarrow> string \<Rightarrow> string \<Rightarrow> string \<Rightarrow> entry" where
  "rawEntry t lvl svc msg =
     [''timestamp'' \<mapsto> JString t, ''level'' \<mapsto> JString lvl,
      ''service'' \<mapsto> JString svc, ''message'' \<mapsto> JString msg]"

text \<open>A clock that stands still, and three entries, the last without a timestamp.\<close>

definition demoClock :: "nat \<Rightarrow> string" where
  "demoClock i = ''2024-05-01T10:00:09Z''"

definition demoEntries :: "entry list" where
  "demoEntries =
     [rawEntry ''2024-05-01T10:00:05Z'' ''ERROR'' ''svc-a'' ''conn timeout'',
      rawEntry ''2024-05-01T10:00:03Z'' ''ERROR'' ''svc-a'' ''conn timeout'',
      rawEntry [] ''INFO'' ''svc-b'' ''db ok'']"

section \<open>The normalizer for free-text lines\<close>

text \<open>
  \<open>LogOutput\<close>, with its fields prefixed by \<open>Out\<close> (they share their names with
  \<open>RawLogGo\<close>).
\<close>

record LogOutput =
  OutTimestamp :: string
  OutLevel :: string
  OutService :: string
  OutMessage :: string

text \<open>
  The loop of \<open>parseLine\<close> over the level tokens: \<open>level\<close> is the value set before the
  loop, and the first token that the line contains replaces it and ends the loop.
\<close>

fun inferLevel :: "string \<Rightarrow> string list \<Rightarrow> string \<Rightarrow> string" where
  "inferLevel line [] level = level"
| "inferLevel line (l # ls) level = (if Contains line l then l else inferLevel line ls level)"

text \<open>
  \<open>timeRegex\<close> of the tailing program is \<^verbatim>\<open>^\d{4}-\d{2}-\d{2}\<close>: four ASCII digits, a
  hyphen, two digits, a hyphen, two digits, at the start of the text.  It can match at
  most once, so \<open>timeRegex.ReplaceAllString(line, "")\<close> drops the ten matched bytes.
\<close>

definition isDigit :: "char \<Rightarrow> bool" where
  "isDigit c = (48 \<le> (of_char c :: nat) \<and> (of_char c :: nat) \<le> 57)"

fun timeRegexMatch :: "string \<Rightarrow> bool" where
  "timeRegexMatch (y1 # y2 # y3 # y4 # h1 # m1 # m2 # h2 # d1 # d2 # rest) =
     (isDigit y1 \<and> isDigit y2 \<and> isDigit y3 \<and> isDigit y4 \<and> h1 = CHR ''-'' \<and>
      isDigit m1 \<and> isDigit m2 \<and> h2 = CHR ''-'' \<and> isDigit d1 \<and> isDigit d2)"
| "timeRegexMatch _ = False"

definition timeRegexStrip :: "string \<Rightarrow> string" where
  "timeRegexStrip line = (if timeRegexMatch line then drop 10 line else line)"

text \<open>
  \<open>strings.TrimSpace\<close> of the standard library removes the leading and the trailing
  white space of a string, white space being what Unicode defines as such: the string
  is read as UTF-8, rune by rune.  The functions of the packages \<open>unicode/utf8\<close>,
  \<open>unicode\<close> and \<open>strings\<close> that it goes through are modelled here; a byte is its value
  as an integer, a rune is an integer (Go's \<open>int32\<close>).
\<close>

definition RuneError :: int where
  "RuneError = 0xFFFD"

definition RuneSelf :: int where
  "RuneSelf = 0x80"

text \<open>
  The table \<open>first\<close> of \<open>unicode/utf8\<close>, by ranges of the first byte of a sequence:
  \<open>0xF0\<close> for an ASCII byte, \<open>0xF1\<close> for a byte that starts no sequence, otherwise the
  length of the sequence in the low three bits and the index into \<open>acceptRanges\<close>, the
  bounds of the second byte, in the high four.
\<close>

definition firstTab :: "int \<Rightarrow> int" where
  "firstTab b =
     (if b < 0x80 then 0xF0
      else if b < 0xC2 then 0xF1
      else if b < 0xE0 then 0x02
      else if b = 0xE0 then 0x13
      else if b < 0xED then 0x03
      else if b = 0xED then 0x23
      else if b < 0xF0 then 0x03
      else if b = 0xF0 then 0x34
      else if b < 0xF4 then 0x04
      else if b = 0xF4 then 0x44
      else 0xF1)"

definition acceptRanges :: "int \<Rightarrow> int \<times> int" where
  "acceptRanges k =
     (if k = 0 then (0x80, 0xBF)
      else if k = 1 then (0xA0, 0xBF)
      else if k = 2 then (0x80, 0x9F)
      else if k = 3 then (0x90, 0xBF)
      else if k = 4 then (0x80, 0x8F)
      else (0, 0))"

text \<open>
  \<open>utf8.DecodeRuneInString\<close>: the first rune of \<open>s\<close> and its width in bytes;
  \<open>(RuneError, 0)\<close> for the empty string and \<open>(RuneError, 1)\<close> where the bytes are no
  valid encoding.  The masks and shifts of the code are written as \<open>mod\<close> and
  multiplications (\<open>s0&mask2\<close> is \<open>s0 mod 32\<close>, \<open>&maskx\<close> is \<open>mod 64\<close>, \<open><<6\<close> is
  \<open>* 64\<close>; the parts joined by \<open>|\<close> have no bit in common).
\<close>

definition DecodeRuneInString :: "string \<Rightarrow> int \<times> nat" where
  "DecodeRuneInString s =
     (case map of_char s of
        [] \<Rightarrow> (RuneError, 0)
      | s0 # t \<Rightarrow>
          let x = firstTab s0 in
          if 0xF0 \<le> x then (if x = 0xF0 then s0 else RuneError, 1)
          else
            let sz = x mod 8;
                lo = fst (acceptRanges (x div 16));
                hi = snd (acceptRanges (x div 16))
            in if int (length s) < sz then (RuneError, 1)
               else if t ! 0 < lo \<or> hi < t ! 0 then (RuneError, 1)
               else if sz \<le> 2 then ((s0 mod 32) * 64 + t ! 0 mod 64, 2)
               else if t ! 1 < 0x80 \<or> 0xBF < t ! 1 then (RuneError, 1)
               else if sz \<le> 3
                 then ((s0 mod 16) * 4096 + (t ! 0 mod 64) * 64 + t ! 1 mod 64, 3)
               else if t ! 2 < 0x80 \<or> 0xBF < t ! 2 then (RuneError, 1)
               else ((s0 mod 8) * 262144 + (t ! 0 mod 64) * 4096 + (t ! 1 mod 64) * 64
                       + t ! 2 mod 64, 4))"

text \<open>
  \<open>utf8.RuneStart\<close> (the byte is no continuation byte \<open>10xxxxxx\<close>), and the loop of
  \<open>utf8.DecodeLastRuneInString\<close> that goes back from \<open>start\<close> to the first such byte,
  not below \<open>lowest\<close> (\<open>lim\<close> in the code).
\<close>

definition RuneStart :: "int \<Rightarrow> bool" where
  "RuneStart b = ((b div 64) mod 4 \<noteq> 2)"

function lastStart :: "int list \<Rightarrow> int \<Rightarrow> int \<Rightarrow> int" where
  "lastStart bs start lowest =
     (if lowest \<le> start
      then (if RuneStart (bs ! nat start) then start else lastStart bs (start - 1) lowest)
      else start)"
  by pat_completeness auto
termination
  by (relation "measure (\<lambda>(bs, start, lowest). nat (start - lowest + 1))") auto

declare lastStart.simps [simp del]

text \<open>\<open>utf8.DecodeLastRuneInString\<close>: the last rune of \<open>s\<close> and its width.\<close>

definition DecodeLastRuneInString :: "string \<Rightarrow> int \<times> nat" where
  "DecodeLastRuneInString s =
     (let n = int (length s) in
      if n = 0 then (RuneError, 0)
      else
        let bs = map of_char s;
            r = bs ! nat (n - 1)
        in if r < RuneSelf then (r, 1)
           else
             let lowest = max 0 (n - 4);
                 start0 = lastStart bs (n - 2) lowest;
                 start = (if start0 < 0 then 0 else start0);
                 d = DecodeRuneInString (drop (nat start) s)
             in if start + int (snd d) \<noteq> n then (RuneError, 1) else d)"

text \<open>
  \<open>unicode.IsSpace\<close>: in Latin-1 the six ASCII white space characters, \<open>U+0085\<close> and
  \<open>U+00A0\<close>; above it the ranges of the table \<open>White_Space\<close>.
\<close>

definition IsSpace :: "int \<Rightarrow> bool" where
  "IsSpace r =
     (if r \<le> 0xFF then r \<in> {0x09, 0x0A, 0x0B, 0x0C, 0x0D, 0x20, 0x85, 0xA0}
      else r = 0x1680 \<or> (0x2000 \<le> r \<and> r \<le> 0x200A) \<or> r = 0x2028 \<or> r = 0x2029
           \<or> r = 0x202F \<or> r = 0x205F \<or> r = 0x3000)"

text \<open>
  \<open>indexFunc\<close> of package \<open>strings\<close>, the loop \<open>for i, r := range s\<close> from the index
  \<open>i\<close> on: the index of the first rune \<open>r\<close> with \<open>f(r) == truth\<close>, \<^const>\<open>None\<close> for
  \<open>-1\<close>.  The \<open>range\<close> loop decodes as \<open>DecodeRuneInString\<close> does.
\<close>

function indexFunc :: "string \<Rightarrow> (int \<Rightarrow> bool) \<Rightarrow> bool \<Rightarrow> nat \<Rightarrow> nat option" where
  "indexFunc s f truth i =
     (if i < length s
      then (if f (fst (DecodeRuneInString (drop i s))) = truth then Some i
            else indexFunc s f truth (i + snd (DecodeRuneInString (drop i s))))
      else None)"
  by pat_completeness auto
termination
proof (relation "measure (\<lambda>(s, f, truth, i). length s - i)", goal_cases)
  case 1
  show ?case by simp
next
  case (2 s f truth i)
  then have "drop i s \<noteq> []" by simp
  then obtain c t where ct: "drop i s = c # t" by (cases "drop i s") auto
  have "0 < snd (DecodeRuneInString (c # t))"
    by (simp add: DecodeRuneInString_def Let_def)
  then show ?case using 2 ct by simp
qed

declare indexFunc.simps [simp del]

definition TrimLeftFunc :: "string \<Rightarrow> (int \<Rightarrow> bool) \<Rightarrow> string" where
  "TrimLeftFunc s f = (case indexFunc s f False 0 of None \<Rightarrow> [] | Some i \<Rightarrow> drop i s)"

text \<open>
  \<open>lastIndexFunc\<close>: the loop \<open>for i := len(s); i > 0;\<close> decodes the last rune of
  \<open>s[0:i]\<close> and takes its width from \<open>i\<close>; here the prefix \<open>s[0:i]\<close> is the argument and
  \<open>i\<close> is its length.
\<close>

function lastIndexFunc :: "string \<Rightarrow> (int \<Rightarrow> bool) \<Rightarrow> bool \<Rightarrow> nat option" where
  "lastIndexFunc s f truth =
     (if s = [] then None
      else if f (fst (DecodeLastRuneInString s)) = truth
        then Some (length s - snd (DecodeLastRuneInString s))
      else lastIndexFunc (take (length s - snd (DecodeLastRuneInString s)) s) f truth)"
  by pat_completeness auto
termination
proof (relation "measure (\<lambda>(s, f, truth). length s)", goal_cases)
  case 1
  show ?case by simp
next
  case (2 s f truth)
  have le: "lastStart bs start lowest \<le> start" for bs start lowest
  proof (induction bs start lowest rule: lastStart.induct)
    case (1 bs start lowest)
    then show ?case by (subst lastStart.simps) auto
  qed
  have "lastStart (map of_char s) (int (length s) - 2) (max 0 (int (length s) - 4))
          \<le> int (length s) - 2"
    by (rule le)
  then have "0 < snd (DecodeLastRuneInString s)"
    using 2 by (auto simp: DecodeLastRuneInString_def Let_def)
  then show ?case using 2 by simp
qed

declare lastIndexFunc.simps [simp del]

text \<open>
  \<open>TrimRightFunc\<close>: the string up to and with the last rune that \<open>f\<close> rejects.
\<close>

definition TrimRightFunc :: "string \<Rightarrow> (int \<Rightarrow> bool) \<Rightarrow> string" where
  "TrimRightFunc s f =
     (case lastIndexFunc s f False of
        None \<Rightarrow> take 0 s
      | Some i \<Rightarrow>
          if RuneSelf \<le> of_char (s ! i)
          then take (i + snd (DecodeRuneInString (drop i s))) s
          else take (i + 1) s)"

definition TrimFunc :: "string \<Rightarrow> (int \<Rightarrow> bool) \<Rightarrow> string" where
  "TrimFunc s f = TrimRightFunc (TrimLeftFunc s f) f"

text \<open>
  \<open>strings.TrimSpace\<close>.  It first skips the leading ASCII white space (tab, line feed,
  vertical tab, form feed, carriage return, space) and goes to \<open>TrimFunc\<close> with
  \<open>unicode.IsSpace\<close> at the first byte from \<open>0x80\<close> on; then it does the same from the
  end, going to \<open>TrimRightFunc\<close>.
\<close>

definition asciiSpace :: "char \<Rightarrow> bool" where
  "asciiSpace c = ((of_char c :: int) \<in> {9, 10, 11, 12, 13, 32})"

definition TrimSpace :: "string \<Rightarrow> string" where
  "TrimSpace s =
     (let t = dropWhile asciiSpace s in
      case t of
        [] \<Rightarrow> []
      | c # _ \<Rightarrow>
          if RuneSelf \<le> of_char c then TrimFunc t IsSpace
          else
            let u = rev (dropWhile asciiSpace (rev t)) in
            if RuneSelf \<le> of_char (last u) then TrimRightFunc u IsSpace else u)"

text \<open>
  \<open>parseLine\<close>; \<open>now\<close> is what \<open>time.Now().UTC().Format(time.RFC3339)\<close> returns.
\<close>

definition parseLine :: "string \<Rightarrow> string \<Rightarrow> string \<Rightarrow> LogOutput" where
  "parseLine now line service =
     \<lparr> OutTimestamp = now,
       OutLevel = inferLevel line [''ERROR'', ''WARN'', ''DEBUG''] ''INFO'',
       OutService = service,
       OutMessage = TrimSpace (timeRegexStrip line) \<rparr>"

text \<open>
  The \<open>switch\<close> of \<open>formatLogLine\<close> (the older \<open>main.go\<close>) that sets
  \<open>result["severity"]\<close>; \<^const>\<open>None\<close> when it sets nothing.
\<close>

definition formatLogLine_severity :: "string \<Rightarrow> string option" where
  "formatLogLine_severity line =
     (if Contains line ''ERROR'' then Some ''ERROR''
      else if Contains line ''WARN'' then Some ''WARN''
      else if Contains line ''INFO'' then Some ''INFO''
      else if Contains line ''DEBUG'' then Some ''DEBUG''
      else None)"

section \<open>The UTF-16 file reader\<close>

text \<open>
  The content of a file is a list of bytes, and so is the Go \<open>string\<close> that
  \<open>readFileAutoUTF\<close> returns (\<open>string(data)\<close> keeps the bytes as they are).
\<close>

type_synonym byte = "8 word"

text \<open>
  The loop that fills \<open>u16\<close>: \<open>(len(data)-2)/2\<close> code units, the \<open>i\<close>-th read by
  \<open>binary.LittleEndian.Uint16\<close> (or \<open>BigEndian\<close>) from the two bytes at \<open>2+i*2\<close>.  The
  functions below take the bytes after the BOM; a last byte without a partner makes
  no code unit.
\<close>

fun uint16sLE :: "byte list \<Rightarrow> 16 word list" where
  "uint16sLE (b0 # b1 # rest) = (ucast b0 OR push_bit 8 (ucast b1)) # uint16sLE rest"
| "uint16sLE _ = []"

fun uint16sBE :: "byte list \<Rightarrow> 16 word list" where
  "uint16sBE (b0 # b1 # rest) = (ucast b1 OR push_bit 8 (ucast b0)) # uint16sBE rest"
| "uint16sBE _ = []"

text \<open>
  \<open>utf16.Decode\<close> of the standard library: a code unit outside the surrogate range is
  its own code point, a high surrogate followed by a low one is a code point from
  \<open>0x10000\<close> on, any other surrogate is replaced by \<open>U+FFFD\<close>.  Runes are natural
  numbers.
\<close>

definition isSurrogate :: "16 word \<Rightarrow> bool" where
  "isSurrogate r = (0xd800 \<le> r \<and> r < 0xe000)"

fun utf16_Decode :: "16 word list \<Rightarrow> nat list" where
  "utf16_Decode [] = []"
| "utf16_Decode [r] = [if isSurrogate r then 0xFFFD else unat r]"
| "utf16_Decode (r # r2 # rest) =
     (if \<not> isSurrogate r then unat r # utf16_Decode (r2 # rest)
      else if r < 0xdc00 \<and> 0xdc00 \<le> r2 \<and> r2 < 0xe000
        then ((unat r - 0xd800) * 1024 + (unat r2 - 0xdc00) + 0x10000) # utf16_Decode rest
      else 0xFFFD # utf16_Decode (r2 # rest))"

text \<open>\<open>string(runes)\<close>: the UTF-8 encoding of each rune, \<open>U+FFFD\<close> for an invalid one.\<close>

definition encodeRune :: "nat \<Rightarrow> byte list" where
  "encodeRune r =
     (if r < 0x80 then [of_nat r]
      else if r < 0x800 then [of_nat (0xC0 + r div 64), of_nat (0x80 + r mod 64)]
      else if (0xD800 \<le> r \<and> r < 0xE000) \<or> 0x10FFFF < r then [0xEF, 0xBF, 0xBD]
      else if r < 0x10000
        then [of_nat (0xE0 + r div 4096), of_nat (0x80 + (r div 64) mod 64),
              of_nat (0x80 + r mod 64)]
      else [of_nat (0xF0 + r div 262144), of_nat (0x80 + (r div 4096) mod 64),
            of_nat (0x80 + (r div 64) mod 64), of_nat (0x80 + r mod 64)])"

definition stringOfRunes :: "nat list \<Rightarrow> byte list" where
  "stringOfRunes rs = concat (map encodeRune rs)"

text \<open>
  \<open>readFileAutoUTF\<close>.  \<open>os.ReadFile\<close> is a parameter: the file system, giving for a
  path an error or the content.
\<close>

definition readFileAutoUTF :: "(string \<Rightarrow> error + byte list) \<Rightarrow> string \<Rightarrow> error + byte list" where
  "readFileAutoUTF os_ReadFile path =
     (case os_ReadFile path of
        Inl err \<Rightarrow> Inl err
      | Inr data \<Rightarrow>
          if length data > 2 \<and> data ! 0 = 0xFF \<and> data ! 1 = 0xFE
          then Inr (stringOfRunes (utf16_Decode (uint16sLE (drop 2 data))))
          else if length data > 2 \<and> data ! 0 = 0xFE \<and> data ! 1 = 0xFF
          then Inr (stringOfRunes (utf16_Decode (uint16sBE (drop 2 data))))
          else Inr data)"

text \<open>A content that begins with a UTF-16 byte order mark.\<close>

definition hasBOM :: "byte list \<Rightarrow> bool" where
  "hasBOM data = (2 \<le> length data \<and>
     ((data ! 0 = 0xFF \<and> data ! 1 = 0xFE) \<or> (data ! 0 = 0xFE \<and> data ! 1 = 0xFF)))"

text \<open>\<open>hi\<close> in UTF-16, little-endian, behind its BOM and followed by one stray byte.\<close>

definition demoFile :: "byte list" where
  "demoFile = [0xFF, 0xFE, 0x68, 0x00, 0x69, 0x00, 0x21]"

section \<open>The rotation-safe tail\<close>

text \<open>
  \<open>tailFile\<close> reads the file through a \<open>bufio.Reader\<close>.  The reader holds the bytes it
  has read ahead of the caller; its buffer has \<open>defaultBufSize\<close> bytes.
\<close>

definition defaultBufSize :: nat where
  "defaultBufSize = 4096"

definition newline :: char where
  "newline = CHR 0x0A"

text \<open>
  \<open>reader.ReadString('\n')\<close> on a file whose content is \<open>content\<close> and whose descriptor
  stands at \<open>offset\<close>, with \<open>buffered\<close> read ahead and \<open>acc\<close> the full buffers already
  taken.  The result is the string returned, whether the error is \<open>io.EOF\<close>, the new
  offset and what stays buffered.  A line found in the buffer is returned up to and
  with its line feed; a full buffer without a line feed is taken whole; otherwise the
  reader fills the buffer from the file, and at the end of the file it returns the
  bytes it has, with \<open>io.EOF\<close>.  No other read error is modelled.
\<close>

function ReadString :: "string \<Rightarrow> nat \<Rightarrow> string \<Rightarrow> string \<Rightarrow> string \<times> bool \<times> nat \<times> string" where
  "ReadString content offset buffered acc =
     (if newline \<in> set buffered
        then (acc @ takeWhile (\<lambda>c. c \<noteq> newline) buffered @ [newline], False, offset,
              tl (dropWhile (\<lambda>c. c \<noteq> newline) buffered))
      else if defaultBufSize \<le> length buffered
        then ReadString content offset [] (acc @ buffered)
      else if length content \<le> offset
        then (acc @ buffered, True, offset, [])
      else ReadString content
             (offset + min (defaultBufSize - length buffered) (length content - offset))
             (buffered @ take (min (defaultBufSize - length buffered) (length content - offset))
                           (drop offset content))
             acc)"
  by pat_completeness auto
termination
  by (relation "measure (\<lambda>(content, offset, buffered, acc).
        2 * (length content - offset) + (if defaultBufSize \<le> length buffered then 1 else 0))")
     (auto simp: defaultBufSize_def)

declare ReadString.simps [simp del]

text \<open>
  The variables of the loop of \<open>tailFile\<close>: the offset of \<open>file\<close>, the bytes buffered in
  \<open>reader\<close>, and \<open>lastSize\<close> (an \<open>int64\<close> that counts bytes read, far from wrapping
  around).
\<close>

record tailer =
  offset :: nat
  buffered :: string
  lastSize :: int

text \<open>
  The rotation check at the head of an iteration: \<open>file.Stat()\<close> gives the length of
  \<open>content\<close>; when it is below \<open>lastSize\<close> the file is reopened (offset 0, a new reader)
  and \<open>lastSize\<close> is reset.  The file is rewritten in place, so the descriptor and the
  path name the same file and reopening succeeds.
\<close>

definition reopenIfShrunk :: "string \<Rightarrow> tailer \<Rightarrow> tailer" where
  "reopenIfShrunk content st =
     (if int (length content) < lastSize st
      then \<lparr> offset = 0, buffered = [], lastSize = 0 \<rparr> else st)"

text \<open>
  One iteration of the loop that does not find \<open>ctx\<close> done: the new variables, and the
  record passed to \<open>onLog\<close>, if any.  On \<open>io.EOF\<close> the iteration sleeps and continues,
  and what \<open>ReadString\<close> returned is dropped.
\<close>

definition tailStep :: "string \<Rightarrow> string \<Rightarrow> string \<Rightarrow> tailer \<Rightarrow> tailer \<times> LogOutput list" where
  "tailStep service now content st =
     (let st1 = reopenIfShrunk content st;
          (line, eof, offset', buffered') = ReadString content (offset st1) (buffered st1) []
      in if eof then (st1 \<lparr> offset := offset', buffered := buffered' \<rparr>, [])
         else let st2 = \<lparr> offset = offset', buffered = buffered',
                          lastSize = lastSize st1 + int (length line) \<rparr>
              in if TrimSpace line = [] then (st2, [])
                 else (st2, [parseLine now (TrimSpace line) service]))"

text \<open>
  The iterations up to the one that finds \<open>ctx\<close> done: \<open>polls\<close> holds the content of the
  file as each of them finds it, and the result is the records passed to \<open>onLog\<close>,
  in order.  The \<open>i\<close>-th iteration reads the clock as \<open>clock i\<close>.
\<close>

fun tailLoop :: "string \<Rightarrow> (nat \<Rightarrow> string) \<Rightarrow> nat \<Rightarrow> string list \<Rightarrow> tailer \<Rightarrow> LogOutput list" where
  "tailLoop service clock i [] st = []"
| "tailLoop service clock i (content # polls) st =
     (case tailStep service (clock i) content st of
        (st', logs) \<Rightarrow> logs @ tailLoop service clock (Suc i) polls st')"

text \<open>
  \<open>tailFile\<close>: \<open>opened\<close> is the error of \<open>os.Open\<close> or the content of the file at that
  time.  After \<open>file.Seek(0, io.SeekEnd)\<close> the offset is the length of the content;
  \<open>lastSize\<close> starts at 0.  \<open>Inr\<close> is the return of \<open>nil\<close> once \<open>ctx\<close> is done.
\<close>

definition tailFile :: "string \<Rightarrow> (nat \<Rightarrow> string) \<Rightarrow> error + string \<Rightarrow> string list \<Rightarrow> error + LogOutput list" where
  "tailFile service clock opened polls =
     (case opened of
        Inl err \<Rightarrow> Inl err
      | Inr content \<Rightarrow>
          Inr (tailLoop service clock 0 polls
                 \<lparr> offset = length content, buffered = [], lastSize = 0 \<rparr>))"

text \<open>A file of two lines, and what is in it after it was truncated and written anew.\<close>

definition oldContent :: string where
  "oldContent = ''old line one'' @ [newline] @ ''old line two'' @ [newline]"

definition newContent :: string where
  "newContent = ''fresh line'' @ [newline]"

section \<open>The sort of Go's library\<close>

text \<open>
  \<open>sort.Slice\<close> of Go's standard library (from Go 1.19 on) is a pattern-defeating
  quicksort, \<open>pdqsort_func\<close> in \<open>sort/zsortfunc.go\<close>.  It works in place on the slice
  through \<open>Less(i, j)\<close> and \<open>Swap(i, j)\<close>; here the slice is a list that each function
  returns updated, and \<open>Less(i, j)\<close> is \<open>lessFn (data ! i) (data ! j)\<close>.
\<close>

definition swap :: "'a list \<Rightarrow> nat \<Rightarrow> nat \<Rightarrow> 'a list" where
  "swap data i j = data[i := data ! j, j := data ! i]"

text \<open>
  \<open>insertionSort_func\<close> sorts \<open>data[a:b]\<close>; \<open>insertDown\<close> is its inner loop
  \<open>for j := i; j > a && data.Less(j, j-1); j--\<close>.
\<close>

fun insertDown :: "('a \<Rightarrow> 'a \<Rightarrow> bool) \<Rightarrow> 'a list \<Rightarrow> nat \<Rightarrow> nat \<Rightarrow> 'a list" where
  "insertDown lessFn data a 0 = data"
| "insertDown lessFn data a (Suc j) =
     (if a < Suc j \<and> lessFn (data ! Suc j) (data ! j)
      then insertDown lessFn (swap data (Suc j) j) a j else data)"

definition insertionSort_func :: "('a \<Rightarrow> 'a \<Rightarrow> bool) \<Rightarrow> 'a list \<Rightarrow> nat \<Rightarrow> nat \<Rightarrow> 'a list" where
  "insertionSort_func lessFn data a b = foldl (\<lambda>d i. insertDown lessFn d a i) data [a + 1..<b]"

text \<open>
  \<open>order2_func\<close>, \<open>median_func\<close> and \<open>medianAdjacent_func\<close>; the counter \<open>*swaps\<close> is
  passed in and returned.
\<close>

definition order2_func :: "('a \<Rightarrow> 'a \<Rightarrow> bool) \<Rightarrow> 'a list \<Rightarrow> nat \<Rightarrow> nat \<Rightarrow> nat \<Rightarrow> nat \<times> nat \<times> nat" where
  "order2_func lessFn data a b swaps =
     (if lessFn (data ! b) (data ! a) then (b, a, swaps + 1) else (a, b, swaps))"

definition median_func :: "('a \<Rightarrow> 'a \<Rightarrow> bool) \<Rightarrow> 'a list \<Rightarrow> nat \<Rightarrow> nat \<Rightarrow> nat \<Rightarrow> nat \<Rightarrow> nat \<times> nat" where
  "median_func lessFn data a b c swaps =
     (case order2_func lessFn data a b swaps of (a1, b1, s1) \<Rightarrow>
      case order2_func lessFn data b1 c s1 of (b2, c2, s2) \<Rightarrow>
      case order2_func lessFn data a1 b2 s2 of (a3, b3, s3) \<Rightarrow> (b3, s3))"

definition medianAdjacent_func :: "('a \<Rightarrow> 'a \<Rightarrow> bool) \<Rightarrow> 'a list \<Rightarrow> nat \<Rightarrow> nat \<Rightarrow> nat \<times> nat" where
  "medianAdjacent_func lessFn data a swaps = median_func lessFn data (a - 1) a (a + 1) swaps"

text \<open>
  \<open>choosePivot_func\<close>: for eight elements or more the median of the elements at one,
  two and three quarters of \<open>data[a:b]\<close> (for fifty or more, of the medians around
  them); the hint tells from the number of swaps whether the slice looks sorted.
\<close>

datatype sortedHint = unknownHint | increasingHint | decreasingHint

definition choosePivot_func :: "('a \<Rightarrow> 'a \<Rightarrow> bool) \<Rightarrow> 'a list \<Rightarrow> nat \<Rightarrow> nat \<Rightarrow> nat \<times> sortedHint" where
  "choosePivot_func lessFn data a b =
     (let l = b - a;
          i = a + l div 4 * 1;
          j = a + l div 4 * 2;
          k = a + l div 4 * 3;
          (pivot, swaps) =
            (if 8 \<le> l then
               (if 50 \<le> l then
                  (case medianAdjacent_func lessFn data i 0 of (i1, s1) \<Rightarrow>
                   case medianAdjacent_func lessFn data j s1 of (j1, s2) \<Rightarrow>
                   case medianAdjacent_func lessFn data k s2 of (k1, s3) \<Rightarrow>
                     median_func lessFn data i1 j1 k1 s3)
                else median_func lessFn data i j k 0)
             else (j, 0))
      in if swaps = 0 then (pivot, increasingHint)
         else if swaps = 4 * 3 then (pivot, decreasingHint)
         else (pivot, unknownHint))"

text \<open>\<open>reverseRange_func\<close> reverses \<open>data[a:b]\<close>.\<close>

function reverseRange_loop :: "'a list \<Rightarrow> nat \<Rightarrow> nat \<Rightarrow> 'a list" where
  "reverseRange_loop data i j =
     (if i < j then reverseRange_loop (swap data i j) (Suc i) (j - 1) else data)"
  by pat_completeness auto
termination
  by (relation "measure (\<lambda>(data, i, j). j - i)") auto

definition reverseRange_func :: "'a list \<Rightarrow> nat \<Rightarrow> nat \<Rightarrow> 'a list" where
  "reverseRange_func data a b = reverseRange_loop data a (b - 1)"

text \<open>
  \<open>partialInsertionSort_func\<close> tries to finish a slice that is nearly sorted: at most
  five times it goes to the next element that is smaller than the one before it and, in
  a slice of fifty elements or more, moves the two into place (\<open>shiftLeft\<close> is the loop
  \<open>for j := i - 1; j >= 1; j--\<close>, \<open>shiftRight\<close> the loop \<open>for j := i + 1; j < b; j++\<close>).
  It returns whether the slice is sorted at the end.
\<close>

function skipSorted :: "('a \<Rightarrow> 'a \<Rightarrow> bool) \<Rightarrow> 'a list \<Rightarrow> nat \<Rightarrow> nat \<Rightarrow> nat" where
  "skipSorted lessFn data i b =
     (if i < b \<and> \<not> lessFn (data ! i) (data ! (i - 1))
      then skipSorted lessFn data (Suc i) b else i)"
  by pat_completeness auto
termination
  by (relation "measure (\<lambda>(lessFn, data, i, b). b - i)") auto

fun shiftLeft :: "('a \<Rightarrow> 'a \<Rightarrow> bool) \<Rightarrow> 'a list \<Rightarrow> nat \<Rightarrow> 'a list" where
  "shiftLeft lessFn data 0 = data"
| "shiftLeft lessFn data (Suc j) =
     (if \<not> lessFn (data ! Suc j) (data ! j) then data
      else shiftLeft lessFn (swap data (Suc j) j) j)"

function shiftRight :: "('a \<Rightarrow> 'a \<Rightarrow> bool) \<Rightarrow> 'a list \<Rightarrow> nat \<Rightarrow> nat \<Rightarrow> 'a list" where
  "shiftRight lessFn data j b =
     (if j < b then
        (if \<not> lessFn (data ! j) (data ! (j - 1)) then data
         else shiftRight lessFn (swap data j (j - 1)) (Suc j) b)
      else data)"
  by pat_completeness auto
termination
  by (relation "measure (\<lambda>(lessFn, data, j, b). b - j)") auto

primrec partialInsertionSort_steps ::
  "nat \<Rightarrow> ('a \<Rightarrow> 'a \<Rightarrow> bool) \<Rightarrow> 'a list \<Rightarrow> nat \<Rightarrow> nat \<Rightarrow> nat \<Rightarrow> bool \<times> 'a list" where
  "partialInsertionSort_steps 0 lessFn data a b i = (False, data)"
| "partialInsertionSort_steps (Suc n) lessFn data a b i =
     (let i1 = skipSorted lessFn data i b in
      if i1 = b then (True, data)
      else if b - a < 50 then (False, data)
      else
        let d1 = swap data i1 (i1 - 1);
            d2 = (if 2 \<le> i1 - a then shiftLeft lessFn d1 (i1 - 1) else d1);
            d3 = (if 2 \<le> b - i1 then shiftRight lessFn d2 (i1 + 1) b else d2)
        in partialInsertionSort_steps n lessFn d3 a b i1)"

definition partialInsertionSort_func ::
  "('a \<Rightarrow> 'a \<Rightarrow> bool) \<Rightarrow> 'a list \<Rightarrow> nat \<Rightarrow> nat \<Rightarrow> bool \<times> 'a list" where
  "partialInsertionSort_func lessFn data a b = partialInsertionSort_steps 5 lessFn data a b (a + 1)"

text \<open>
  The loops of \<open>partition_func\<close> and \<open>partitionEqual_func\<close>.  The pivot is at \<open>data[a]\<close>;
  \<open>advanceWhile\<close> is \<open>for i <= j && cond(data[i], data[a]) { i++ }\<close> and \<open>retreatWhile\<close>
  is \<open>for i <= j && cond(data[j], data[a]) { j-- }\<close> (there \<open>i\<close> is at least \<open>a + 1\<close>,
  so \<open>j\<close> does not go below \<open>0\<close>).  \<open>scanSwap\<close> is the loop around them, which swaps
  the two elements that they stop at until \<open>i > j\<close>.
\<close>

function advanceWhile :: "('a \<Rightarrow> 'a \<Rightarrow> bool) \<Rightarrow> 'a list \<Rightarrow> nat \<Rightarrow> nat \<Rightarrow> nat \<Rightarrow> nat" where
  "advanceWhile cond data a i j =
     (if i \<le> j \<and> cond (data ! i) (data ! a) then advanceWhile cond data a (Suc i) j else i)"
  by pat_completeness auto
termination
  by (relation "measure (\<lambda>(cond, data, a, i, j). Suc j - i)") auto

fun retreatWhile :: "('a \<Rightarrow> 'a \<Rightarrow> bool) \<Rightarrow> 'a list \<Rightarrow> nat \<Rightarrow> nat \<Rightarrow> nat \<Rightarrow> nat" where
  "retreatWhile cond data a i 0 = 0"
| "retreatWhile cond data a i (Suc j) =
     (if i \<le> Suc j \<and> cond (data ! Suc j) (data ! a) then retreatWhile cond data a i j else Suc j)"

function scanSwap ::
  "('a \<Rightarrow> 'a \<Rightarrow> bool) \<Rightarrow> ('a \<Rightarrow> 'a \<Rightarrow> bool) \<Rightarrow> 'a list \<Rightarrow> nat \<Rightarrow> nat \<Rightarrow> nat \<Rightarrow> 'a list \<times> nat \<times> nat" where
  "scanSwap condI condJ data a i j =
     (let i1 = advanceWhile condI data a i j;
          j1 = retreatWhile condJ data a i1 j
      in if j1 < i1 then (data, i1, j1)
         else scanSwap condI condJ (swap data i1 j1) a (i1 + 1) (j1 - 1))"
  by pat_completeness auto
termination
proof (relation "measure (\<lambda>(condI, condJ, data, a, i, j). Suc j - i)", goal_cases)
  case 1
  then show ?case by simp
next
  case (2 condI condJ data a i j i1 j1)
  have ge: "m \<le> advanceWhile c d p m n" for c :: "'a \<Rightarrow> 'a \<Rightarrow> bool" and d p m n
  proof (induction c d p m n rule: advanceWhile.induct)
    case (1 c d p m n)
    show ?case
    proof (cases "m \<le> n \<and> c (d ! m) (d ! p)")
      case True
      then have "Suc m \<le> advanceWhile c d p (Suc m) n" using 1 by blast
      then show ?thesis using True by (subst advanceWhile.simps) simp
    next
      case False
      then show ?thesis by (subst advanceWhile.simps) auto
    qed
  qed
  have le: "retreatWhile c d p m n \<le> n" for c :: "'a \<Rightarrow> 'a \<Rightarrow> bool" and d p m n
    by (induction n) auto
  have "i \<le> i1" using 2 ge by metis
  moreover have "j1 \<le> j" using 2 le by metis
  moreover have "i1 \<le> j1" using 2 by simp
  ultimately show ?case by simp
qed

declare advanceWhile.simps [simp del] scanSwap.simps [simp del] skipSorted.simps [simp del]
  shiftRight.simps [simp del] reverseRange_loop.simps [simp del]

text \<open>
  \<open>partition_func\<close> puts the pivot first, brings the elements smaller than it before
  the others, then the pivot between them; it returns the slice, the new index of the
  pivot and whether the slice was partitioned already.  \<open>partitionEqual_func\<close> brings
  the elements equal to the pivot before those greater than it and returns the index
  of the first of these.
\<close>

definition partition_func ::
  "('a \<Rightarrow> 'a \<Rightarrow> bool) \<Rightarrow> 'a list \<Rightarrow> nat \<Rightarrow> nat \<Rightarrow> nat \<Rightarrow> 'a list \<times> nat \<times> bool" where
  "partition_func lessFn data a b pivot =
     (let d0 = swap data a pivot;
          i = advanceWhile (\<lambda>x p. lessFn x p) d0 a (a + 1) (b - 1);
          j = retreatWhile (\<lambda>x p. \<not> lessFn x p) d0 a i (b - 1)
      in if j < i then (swap d0 j a, j, True)
         else
           (case scanSwap (\<lambda>x p. lessFn x p) (\<lambda>x p. \<not> lessFn x p)
                   (swap d0 i j) a (i + 1) (j - 1) of
              (d1, i1, j1) \<Rightarrow> (swap d1 j1 a, j1, False)))"

definition partitionEqual_func ::
  "('a \<Rightarrow> 'a \<Rightarrow> bool) \<Rightarrow> 'a list \<Rightarrow> nat \<Rightarrow> nat \<Rightarrow> nat \<Rightarrow> 'a list \<times> nat" where
  "partitionEqual_func lessFn data a b pivot =
     (case scanSwap (\<lambda>x p. \<not> lessFn p x) (\<lambda>x p. lessFn p x)
             (swap data a pivot) a (a + 1) (b - 1) of
        (d1, i1, j1) \<Rightarrow> (d1, i1))"

text \<open>
  \<open>pdqsort_func\<close> sorts \<open>data[a:b]\<close>.  Its \<open>for\<close> loop and its recursive call are the
  recursion here, on a first argument that bounds their number (every round makes the
  range shorter, so the length of the slice and one more is enough); \<open>wasBalanced\<close> and
  \<open>wasPartitioned\<close> are the two variables of the loop.  Twelve elements or fewer are
  sorted by insertion.  Two branches are not modelled and give \<^const>\<open>None\<close>: the
  fall back to \<open>heapSort_func\<close> at \<open>limit == 0\<close>, and \<open>breakPatterns_func\<close> (which swaps
  three elements picked by a pseudo-random generator) after a partition that was not
  balanced.
\<close>

primrec pdqsort_func ::
  "nat \<Rightarrow> ('a \<Rightarrow> 'a \<Rightarrow> bool) \<Rightarrow> 'a list \<Rightarrow> nat \<Rightarrow> nat \<Rightarrow> nat \<Rightarrow> bool \<Rightarrow> bool \<Rightarrow> 'a list option" where
  "pdqsort_func 0 lessFn data a b limit wasBalanced wasPartitioned = None"
| "pdqsort_func (Suc fuel) lessFn data a b limit wasBalanced wasPartitioned =
     (if b - a \<le> 12 then Some (insertionSort_func lessFn data a b)
      else if limit = 0 then None
      else if \<not> wasBalanced then None
      else
        (case choosePivot_func lessFn data a b of (pivot0, hint0) \<Rightarrow>
         case (if hint0 = decreasingHint
               then (reverseRange_func data a b, (b - 1) - (pivot0 - a), increasingHint)
               else (data, pivot0, hint0)) of (d1, pivot, hint) \<Rightarrow>
         case (if wasBalanced \<and> wasPartitioned \<and> hint = increasingHint
               then partialInsertionSort_func lessFn d1 a b else (False, d1)) of (ok, d2) \<Rightarrow>
         if ok then Some d2
         else if 0 < a \<and> \<not> lessFn (d2 ! (a - 1)) (d2 ! pivot) then
           (case partitionEqual_func lessFn d2 a b pivot of (d3, mid) \<Rightarrow>
              pdqsort_func fuel lessFn d3 mid b limit wasBalanced wasPartitioned)
         else
           (case partition_func lessFn d2 a b pivot of (d3, mid, alreadyPartitioned) \<Rightarrow>
              if mid - a < b - mid then
                (case pdqsort_func fuel lessFn d3 a mid limit True True of
                   None \<Rightarrow> None
                 | Some d4 \<Rightarrow>
                     pdqsort_func fuel lessFn d4 (mid + 1) b limit
                       ((b - a) div 8 \<le> mid - a) alreadyPartitioned)
              else
                (case pdqsort_func fuel lessFn d3 (mid + 1) b limit True True of
                   None \<Rightarrow> None
                 | Some d4 \<Rightarrow>
                     pdqsort_func fuel lessFn d4 a mid limit
                       ((b - a) div 8 \<le> b - mid) alreadyPartitioned))))"

text \<open>
  \<open>bits.Len\<close>, the number of bits of a number, and \<open>sort.Slice\<close>, which calls
  \<open>pdqsort_func(\<dots>, 0, length, bits.Len(uint(length)))\<close>.  \<open>sort_Slice_run\<close> is the run
  of the model; \<open>sort_Slice_pdq\<close> is a \<open>sorter\<close> that returns the result of the run, and
  the slice as it was for a run that leaves the model.
\<close>

fun bits_Len :: "nat \<Rightarrow> nat" where
  "bits_Len n = (if n = 0 then 0 else Suc (bits_Len (n div 2)))"

declare bits_Len.simps [simp del]

definition sort_Slice_run :: "('a \<Rightarrow> 'a \<Rightarrow> bool) \<Rightarrow> 'a list \<Rightarrow> 'a list option" where
  "sort_Slice_run lessFn x =
     pdqsort_func (Suc (length x)) lessFn x 0 (length x) (bits_Len (length x)) True True"

definition sort_Slice_pdq :: "('a \<Rightarrow> 'a \<Rightarrow> bool) \<Rightarrow> 'a list \<Rightarrow> 'a list" where
  "sort_Slice_pdq lessFn x = (case sort_Slice_run lessFn x of Some y \<Rightarrow> y | None \<Rightarrow> x)"

text \<open>
  Thirteen entries that arrive in the order of their messages \<open>m00\<close> to \<open>m12\<close>; all
  have the same timestamp but \<open>m06\<close>, which has an earlier one.
\<close>

definition tiedEntries :: "entry list" where
  "tiedEntries =
     [rawEntry ''2024-05-01T10:00:05Z'' ''INFO'' ''svc-a'' ''m00'',
      rawEntry ''2024-05-01T10:00:05Z'' ''INFO'' ''svc-a'' ''m01'',
      rawEntry ''2024-05-01T10:00:05Z'' ''INFO'' ''svc-a'' ''m02'',
      rawEntry ''2024-05-01T10:00:05Z'' ''INFO'' ''svc-a'' ''m03'',
      rawEntry ''2024-05-01T10:00:05Z'' ''INFO'' ''svc-a'' ''m04'',
      rawEntry ''2024-05-01T10:00:05Z'' ''INFO'' ''svc-a'' ''m05'',
      rawEntry ''2024-05-01T10:00:01Z'' ''INFO'' ''svc-a'' ''m06'',
      rawEntry ''2024-05-01T10:00:05Z'' ''INFO'' ''svc-a'' ''m07'',
      rawEntry ''2024-05-01T10:00:05Z'' ''INFO'' ''svc-a'' ''m08'',
      rawEntry ''2024-05-01T10:00:05Z'' ''INFO'' ''svc-a'' ''m09'',
      rawEntry ''2024-05-01T10:00:05Z'' ''INFO'' ''svc-a'' ''m10'',
      rawEntry ''2024-05-01T10:00:05Z'' ''INFO'' ''svc-a'' ''m11'',
      rawEntry ''2024-05-01T10:00:05Z'' ''INFO'' ''svc-a'' ''m12'']"


section \<open>Pattern mining\<close>

lemma mineStep_count:
  "mapCount (mineStep m l) k = mapCount m k + (if Message l = k then 1 else 0)"
  by (simp add: mineStep_def mapCount_def Let_def split: option.splits)

lemma mineStep_keyed: "keyed m \<Longrightarrow> keyed (mineStep m l)"
  by (auto simp: mineStep_def keyed_def Let_def split: option.splits)

lemma foldl_mineStep_count:
  "mapCount (foldl mineStep m logs) k
   = mapCount m k + int (length (filter (\<lambda>l. Message l = k) logs))"
  by (induction logs arbitrary: m) (simp_all add: mineStep_count)

lemma foldl_mineStep_keyed: "keyed m \<Longrightarrow> keyed (foldl mineStep m logs)"
  by (induction logs arbitrary: m) (simp_all add: mineStep_keyed)

lemma minePatternMap_count:
  "mapCount (minePatternMap logs) k = int (length (filter (\<lambda>l. Message l = k) logs))"
  unfolding minePatternMap_def foldl_mineStep_count by (simp add: mapCount_def)

lemma minePatternMap_keyed: "keyed (minePatternMap logs)"
  unfolding minePatternMap_def by (rule foldl_mineStep_keyed) (simp add: keyed_def)

lemma patternCount_collect:
  assumes "keyed m" "distinct ks"
  shows "patternCount (concat (map (\<lambda>key. case m key of Some p \<Rightarrow> [p] | None \<Rightarrow> []) ks)) k
         = (if k \<in> set ks then mapCount m k else 0)"
  using assms
proof (induction ks)
  case Nil
  then show ?case by (simp add: patternCount_def)
next
  case (Cons a ks)
  then show ?case
    by (auto simp: patternCount_def mapCount_def keyed_def split: option.splits)
qed

text \<open>
  The count that \<open>MinePatterns\<close> records for a key is the number of records with that
  message.
\<close>

lemma patternCount_MinePatterns:
  "patternCount (MinePatterns logs) k = int (length (filter (\<lambda>l. Message l = k) logs))"
proof -
  have "patternCount (MinePatterns logs) k
        = (if k \<in> Message ` set logs then mapCount (minePatternMap logs) k else 0)"
    unfolding MinePatterns_def
    by (subst patternCount_collect) (simp_all add: minePatternMap_keyed)
  also have "\<dots> = int (length (filter (\<lambda>l. Message l = k) logs))"
    by (auto simp: minePatternMap_count filter_empty_conv)
  finally show ?thesis .
qed

text \<open>
  C7.  Mining is additive over counts: for a record list cut into consecutive sublists
  \<open>parts\<close>, and for every message key, the count that mining the whole list records for
  the key is the sum of the counts that mining each sublist on its own records for it.
\<close>

theorem MinePatterns_counts_additive:
  "patternCount (MinePatterns (concat parts)) key
   = sum_list (map (\<lambda>part. patternCount (MinePatterns part) key) parts)"
  by (induction parts) (simp_all add: patternCount_MinePatterns)

section \<open>Bundle construction\<close>

text \<open>
  C6.  \<open>CreateBundle\<close> on the empty record sequence returns the error (the one the
  specification files under InvalidInput) and no bundle; it returns a bundle exactly
  when the sequence is not empty.
\<close>

theorem CreateBundle_fails_iff_empty:
  "CreateBundle [] patterns = Inl (Error ''cannot create bundle from empty logs'')
   \<and> (\<exists>b. CreateBundle logs patterns = Inr b) = (logs \<noteq> [])"
  by (simp add: CreateBundle_def Let_def)

lemma CreateBundle_Inr_iff: "(\<exists>b. CreateBundle logs patterns = Inr b) = (logs \<noteq> [])"
  by (simp add: CreateBundle_def Let_def)

section \<open>Sorting and the sequence\<close>

lemma mset_insertBy: "mset (insertBy lessFn x xs) = add_mset x (mset xs)"
  by (induction xs) simp_all

lemma mset_insertionSort: "mset (insertionSort lessFn xs) = mset xs"
  by (induction xs) (simp_all add: insertionSort_def mset_insertBy)

lemma set_insertBy: "set (insertBy lessFn x xs) = insert x (set xs)"
  by (induction xs) auto

lemma sorted_insertBy:
  "sorted (map Timestamp xs) \<Longrightarrow> sorted (map Timestamp (insertBy lessTimestamp x xs))"
  by (induction xs) (auto simp: set_insertBy lessTimestamp_def)

lemma sorted_insertionSort: "sorted (map Timestamp (insertionSort lessTimestamp xs))"
  by (induction xs) (simp_all add: insertionSort_def sorted_insertBy)

lemma insertionSort_sortsByTimestamp: "sortsByTimestamp insertionSort"
  by (simp add: sortsByTimestamp_def mset_insertionSort sorted_insertionSort)

lemma length_parseEntries: "length (parseEntries clock i es) = length es"
  by (induction es arbitrary: i) simp_all

lemma sequenceFrom_map:
  "map (\<lambda>s. (SeqTimestamp s, SeqMessage s)) (sequenceFrom i logs)
   = map (\<lambda>r. (Timestamp r, ''['' @ Service r @ ''] '' @ Message r)) logs"
  by (induction logs arbitrary: i) simp_all

lemma sequenceFrom_timestamps: "map SeqTimestamp (sequenceFrom i logs) = map Timestamp logs"
  by (induction logs arbitrary: i) simp_all

lemma sequenceFrom_index: "map SequenceIndex (sequenceFrom i logs) = [i..<i + length logs]"
  by (induction logs arbitrary: i) (simp_all add: upt_rec)

lemma length_sequenceFrom: "length (sequenceFrom i logs) = length logs"
  by (induction logs arbitrary: i) simp_all

lemma Process_Some:
  "Process srt clock (Some entries) = CreateBundle (srt lessTimestamp (parseEntries clock 0 entries)) (MinePatterns (srt lessTimestamp (parseEntries clock 0 entries)))"
  by (simp add: Process_def ParseLogs_def split: sum.splits)

lemma sorted_nth0_Min: "sorted xs \<Longrightarrow> xs \<noteq> [] \<Longrightarrow> xs ! 0 = Min (set xs)"
  by (cases xs) (auto intro!: Min_eqI[symmetric])

lemma sorted_last_Max:
  assumes "sorted xs" "xs \<noteq> []"
  shows "xs ! (length xs - 1) = Max (set xs)"
proof (rule Max_eqI[symmetric])
  show "finite (set xs)" by simp
  show "xs ! (length xs - 1) \<in> set xs" using assms(2) by simp
  fix y assume "y \<in> set xs"
  then obtain i where i: "i < length xs" "y = xs ! i" by (auto simp: in_set_conv_nth)
  then show "y \<le> xs ! (length xs - 1)"
    using assms(1) by (auto simp: sorted_iff_nth_mono)
qed

text \<open>
  C5.  With a \<open>sort.Slice\<close> that keeps its contract, every non-empty collection of raw
  entries is processed into a bundle with \<open>WindowStart \<le> WindowEnd\<close>, \<open>WindowStart\<close> the
  least and \<open>WindowEnd\<close> the greatest timestamp of the normalised records.
\<close>

theorem Process_window_bounds:
  assumes "sortsByTimestamp sort_Slice" and "entries \<noteq> []"
  shows "\<exists>b. Process sort_Slice clock (Some entries) = Inr b
             \<and> WindowStart b \<le> WindowEnd b
             \<and> WindowStart b = Min (Timestamp ` set (parseEntries clock 0 entries))
             \<and> WindowEnd b = Max (Timestamp ` set (parseEntries clock 0 entries))"
proof -
  define recs where "recs = parseEntries clock 0 entries"
  define logs where "logs = sort_Slice lessTimestamp recs"
  have m: "mset logs = mset recs" and s: "sorted (map Timestamp logs)"
    using assms(1) by (simp_all add: sortsByTimestamp_def logs_def)
  have len: "length logs = length entries"
    using m length_parseEntries[of clock 0 entries] recs_def by (metis size_mset)
  then have ne: "logs \<noteq> []" using assms(2) by auto
  have st: "set logs = set recs" using m by (metis set_mset_mset)
  have ne': "map Timestamp logs \<noteq> []" using ne by simp
  have first: "Timestamp (logs ! 0) = Min (Timestamp ` set recs)"
    using sorted_nth0_Min[OF s ne'] ne st by simp
  have lst: "Timestamp (logs ! (length logs - 1)) = Max (Timestamp ` set recs)"
    using sorted_last_Max[OF s ne'] ne st by simp
  have le: "Min (Timestamp ` set recs) \<le> Max (Timestamp ` set recs)"
  proof -
    have "Timestamp (logs ! 0) \<in> Timestamp ` set recs" using ne st by auto
    then have "Min (Timestamp ` set recs) \<le> Timestamp (logs ! 0)"
      and "Timestamp (logs ! 0) \<le> Max (Timestamp ` set recs)" by simp_all
    then show ?thesis by (rule order_trans)
  qed
  show ?thesis
    using ne first lst le
    by (simp add: Process_Some CreateBundle_def Let_def flip: recs_def logs_def)
qed

theorem Process_window_bounds_witness:
  "sortsByTimestamp insertionSort \<and> demoEntries \<noteq> [] \<and>
   (\<exists>b. Process insertionSort demoClock (Some demoEntries) = Inr b
        \<and> WindowStart b \<le> WindowEnd b
        \<and> WindowStart b = Min (Timestamp ` set (parseEntries demoClock 0 demoEntries))
        \<and> WindowEnd b = Max (Timestamp ` set (parseEntries demoClock 0 demoEntries)))"
proof -
  have ne: "demoEntries \<noteq> []" by (simp add: demoEntries_def)
  show ?thesis
    by (intro conjI insertionSort_sortsByTimestamp ne
          Process_window_bounds[OF insertionSort_sortsByTimestamp ne])
qed


text \<open>
  C1, as amended.  With a \<open>sort.Slice\<close> that keeps its contract, a non-empty collection
  of raw entries is processed into a bundle whose \<open>Sequence\<close> has one entry per record
  (the same timestamps and messages, with multiplicity), indexed \<open>0, 1, \<dots>\<close>, in
  ascending order of timestamp.  Nothing is said about records with equal timestamps.
\<close>

theorem Process_sequence_ascending:
  assumes "sortsByTimestamp sort_Slice" and "entries \<noteq> []"
  shows "\<exists>b. Process sort_Slice clock (Some entries) = Inr b
           \<and> sorted (map SeqTimestamp (Sequence b))
           \<and> length (Sequence b) = length entries
           \<and> map SequenceIndex (Sequence b) = [0..<length entries]
           \<and> mset (map (\<lambda>s. (SeqTimestamp s, SeqMessage s)) (Sequence b))
             = mset (map (\<lambda>r. (Timestamp r, ''['' @ Service r @ ''] '' @ Message r))
                         (parseEntries clock 0 entries))"
proof -
  define recs where "recs = parseEntries clock 0 entries"
  define logs where "logs = sort_Slice lessTimestamp recs"
  have m: "mset logs = mset recs" and s: "sorted (map Timestamp logs)"
    using assms(1) by (simp_all add: sortsByTimestamp_def logs_def)
  have len: "length logs = length entries"
    using m length_parseEntries[of clock 0 entries] recs_def by (metis size_mset)
  then have ne: "logs \<noteq> []" using assms(2) by auto
  obtain b where b: "CreateBundle logs (MinePatterns logs) = Inr b"
    using CreateBundle_Inr_iff[of logs "MinePatterns logs"] ne by blast
  then have sq: "Sequence b = sequenceFrom 0 logs"
    using ne by (auto simp: CreateBundle_def Let_def)
  have "Process sort_Slice clock (Some entries) = Inr b"
    using b by (simp add: Process_Some flip: recs_def logs_def)
  moreover have "sorted (map SeqTimestamp (Sequence b))"
    unfolding sq sequenceFrom_timestamps by (rule s)
  moreover have "length (Sequence b) = length entries"
    unfolding sq length_sequenceFrom by (rule len)
  moreover have "map SequenceIndex (Sequence b) = [0..<length entries]"
    unfolding sq sequenceFrom_index using len by simp
  moreover have "mset (map (\<lambda>s. (SeqTimestamp s, SeqMessage s)) (Sequence b))
             = mset (map (\<lambda>r. (Timestamp r, ''['' @ Service r @ ''] '' @ Message r)) recs)"
    unfolding sq sequenceFrom_map using m by simp
  ultimately show ?thesis unfolding recs_def by blast
qed

theorem Process_sequence_ascending_witness:
  "sortsByTimestamp insertionSort \<and> demoEntries \<noteq> [] \<and>
   (\<exists>b. Process insertionSort demoClock (Some demoEntries) = Inr b
           \<and> sorted (map SeqTimestamp (Sequence b))
           \<and> length (Sequence b) = length demoEntries
           \<and> map SequenceIndex (Sequence b) = [0..<length demoEntries]
           \<and> mset (map (\<lambda>s. (SeqTimestamp s, SeqMessage s)) (Sequence b))
             = mset (map (\<lambda>r. (Timestamp r, ''['' @ Service r @ ''] '' @ Message r))
                         (parseEntries demoClock 0 demoEntries)))"
proof -
  have ne: "demoEntries \<noteq> []" by (simp add: demoEntries_def)
  show ?thesis
    by (intro conjI insertionSort_sortsByTimestamp ne
          Process_sequence_ascending[OF insertionSort_sortsByTimestamp ne])
qed

text \<open>
  The order of arrival is not kept among equal timestamps.  Of thirteen entries that
  differ in their timestamp only at \<open>m06\<close>, \<open>sort.Slice\<close> takes the element \<open>m03\<close> as
  pivot, swaps it to the front and then \<open>m06\<close> with \<open>m01\<close>: in the sequence of the
  bundle \<open>m03\<close> and \<open>m02\<close> come before \<open>m00\<close>, and \<open>m01\<close> comes after \<open>m05\<close>, though all
  of these have the same timestamp.
\<close>

theorem Process_sequence_ties_counterexample:
  "sort_Slice_run lessTimestamp (parseEntries demoClock 0 tiedEntries) \<noteq> None
   \<and> (case Process sort_Slice_pdq demoClock (Some tiedEntries) of
        Inl err \<Rightarrow> False
      | Inr b \<Rightarrow>
          map SeqMessage (Sequence b) =
            [''[svc-a] m06'', ''[svc-a] m03'', ''[svc-a] m02'', ''[svc-a] m00'',
             ''[svc-a] m04'', ''[svc-a] m05'', ''[svc-a] m01'', ''[svc-a] m07'',
             ''[svc-a] m08'', ''[svc-a] m09'', ''[svc-a] m10'', ''[svc-a] m11'',
             ''[svc-a] m12'']
          \<and> map SeqTimestamp (Sequence b) =
            ''2024-05-01T10:00:01Z'' # replicate 12 ''2024-05-01T10:00:05Z'')"
  by code_simp

section \<open>The three-record scenario\<close>

lemma Contains_iff: "Contains s sub \<longleftrightarrow> (\<exists>pre post. s = pre @ sub @ post)"
proof (induction s)
  case Nil
  then show ?case by auto
next
  case (Cons c s)
  have "take (length sub) (c # s) = sub \<longleftrightarrow> (\<exists>post. c # s = sub @ post)"
    by (metis append_eq_conv_conj)
  moreover have "(\<exists>pre post. c # s = pre @ sub @ post)
      \<longleftrightarrow> (\<exists>post. c # s = sub @ post) \<or> (\<exists>pre post. s = pre @ sub @ post)"
    (is "?L \<longleftrightarrow> ?R")
  proof
    assume ?L
    then obtain pre post where e: "c # s = pre @ sub @ post" by blast
    show ?R
    proof (cases pre)
      case Nil
      with e show ?thesis by auto
    next
      case (Cons a pre')
      with e show ?thesis by auto
    qed
  next
    assume ?R
    then show ?L
    proof
      assume "\<exists>post. c # s = sub @ post"
      then obtain post where "c # s = [] @ sub @ post" by auto
      then show ?L by blast
    next
      assume "\<exists>pre post. s = pre @ sub @ post"
      then obtain pre post where "c # s = (c # pre) @ sub @ post" by auto
      then show ?L by blast
    qed
  qed
  ultimately show ?case using Cons.IH by simp
qed

lemma Join_has_elem: "m \<in> set ms \<Longrightarrow> \<exists>pre post. Join ms sep = pre @ m @ post"
proof (induction ms sep rule: Join.induct)
  case (1 sep)
  then show ?case by simp
next
  case (2 e sep)
  then have "Join [e] sep = [] @ m @ []" by simp
  then show ?case by blast
next
  case (3 e f elems sep)
  show ?case
  proof (cases "m = e")
    case True
    then have "Join (e # f # elems) sep = [] @ m @ (sep @ Join (f # elems) sep)" by simp
    then show ?thesis by blast
  next
    case False
    with 3 obtain pre post where "Join (f # elems) sep = pre @ m @ post" by auto
    then have "Join (e # f # elems) sep = (e @ sep @ pre) @ m @ post" by simp
    then show ?thesis by blast
  qed
qed

lemma Contains_ToLower_Join:
  assumes "m \<in> set ms" "Contains (ToLower m) sub"
  shows "Contains (ToLower (Join ms sep)) sub"
proof -
  obtain pre post where j: "Join ms sep = pre @ m @ post"
    using Join_has_elem[OF assms(1)] by blast
  obtain p q where c: "ToLower m = p @ sub @ q"
    using assms(2) by (auto simp: Contains_iff)
  have "ToLower (Join ms sep) = (ToLower pre @ p) @ sub @ (q @ ToLower post)"
    using c by (simp add: j ToLower_def)
  then show ?thesis unfolding Contains_iff by blast
qed

lemma conn_timeout_lower: "Contains (ToLower ''conn timeout'') ''timeout''"
  by (simp add: ToLower_def toLowerByte_def)

lemma parseEntry_rawEntry:
  "parseEntry now (rawEntry t lvl svc msg) =
     \<lparr> Timestamp = (if t \<noteq> [] then t else now),
       Level = (if lvl \<noteq> [] then lvl else ''INFO''),
       Service = (if svc \<noteq> [] then svc else ''unknown''),
       Pod = None, Message = msg, ErrorClass = None \<rparr>"
  by (simp add: parseEntry_def rawEntry_def)


lemma foldl_mineStep_dom: "dom (foldl mineStep m logs) = dom m \<union> Message ` set logs"
  by (induction logs arbitrary: m) (auto simp: mineStep_def Let_def)

lemma minePatternMap_dom: "dom (minePatternMap logs) = Message ` set logs"
  by (simp add: minePatternMap_def foldl_mineStep_dom)

lemma filter_collect:
  assumes "keyed m" "distinct ks"
  shows "filter (\<lambda>p. Pattern p = k)
           (concat (map (\<lambda>key. case m key of Some p \<Rightarrow> [p] | None \<Rightarrow> []) ks))
         = (if k \<in> set ks then (case m k of Some p \<Rightarrow> [p] | None \<Rightarrow> []) else [])"
  using assms
proof (induction ks)
  case Nil
  then show ?case by simp
next
  case (Cons a ks)
  then show ?case
    by (auto simp: keyed_def split: option.splits)
qed

lemma MinePatterns_one_per_key:
  assumes "k \<in> Message ` set logs"
  shows "\<exists>p. filter (\<lambda>p. Pattern p = k) (MinePatterns logs) = [p]
             \<and> Count p = int (length (filter (\<lambda>l. Message l = k) logs))"
proof -
  from assms have "k \<in> dom (minePatternMap logs)" by (simp add: minePatternMap_dom)
  then obtain p where p: "minePatternMap logs k = Some p" by auto
  have "filter (\<lambda>p. Pattern p = k) (MinePatterns logs) = [p]"
    unfolding MinePatterns_def
    by (subst filter_collect) (use assms p in \<open>simp_all add: minePatternMap_keyed\<close>)
  moreover have "Count p = int (length (filter (\<lambda>l. Message l = k) logs))"
    using minePatternMap_count[of logs k] p by (simp add: mapCount_def)
  ultimately show ?thesis by blast
qed

lemma length_filter_mset_cong:
  "mset xs = mset ys \<Longrightarrow> length (filter P xs) = length (filter P ys)"
  by (metis mset_filter size_mset)



lemma three_records_bundle:
  assumes m: "mset logs = mset [r1, r2, r3]"
    and r1: "Level r1 = ''ERROR''" "Service r1 = ''svc-a''" "Message r1 = ''conn timeout''"
    and r2: "Level r2 = ''ERROR''" "Service r2 = ''svc-a''" "Message r2 = ''conn timeout''"
    and r3: "Level r3 = ''INFO''" "Service r3 = ''svc-b''" "Message r3 = ''db ok''"
  shows "\<exists>b. CreateBundle logs (MinePatterns logs) = Inr b
             \<and> set (AffectedServices b) = {''svc-a'', ''svc-b''}
             \<and> distinct (AffectedServices b)
             \<and> (\<exists>p. filter (\<lambda>p. Pattern p = ''conn timeout'') (LogPatterns b) = [p]
                     \<and> Count p = 2)
             \<and> RootService b = Some ''svc-a''
             \<and> ErrorRateZ (Metrics b) = 5
             \<and> LatencyZ (Metrics b) = 3
             \<and> DerivedRootCauseHint b = ''Issue detected in svc-a''"
proof -
  have st: "set logs = {r1, r2, r3}"
    using m by (metis list.simps(15) empty_set set_mset_mset)
  have ne: "logs \<noteq> []" using st by auto
  have svc: "set (remdups (map Service logs)) = {''svc-a'', ''svc-b''}"
    by (simp add: st r1 r2 r3)
  have msg: "''conn timeout'' \<in> Message ` set logs"
    by (simp add: st r1)
  have "length (filter (\<lambda>l. Message l = ''conn timeout'') logs)
        = length (filter (\<lambda>l. Message l = ''conn timeout'') [r1, r2, r3])"
    by (rule length_filter_mset_cong[OF m])
  also have "\<dots> = 2" by (simp add: r1 r2 r3)
  finally have cnt: "length (filter (\<lambda>l. Message l = ''conn timeout'') logs) = 2" .
  obtain p where p: "filter (\<lambda>p. Pattern p = ''conn timeout'') (MinePatterns logs) = [p]"
      "Count p = 2"
    using MinePatterns_one_per_key[OF msg] cnt by auto
  have lvl3: "\<not> isErrorLevel r3" by (simp add: isErrorLevel_def r3)
  have err: "Service r = ''svc-a''" if "r \<in> set logs" "isErrorLevel r" for r
    using that lvl3 r1 r2 unfolding st by blast
  have "isErrorLevel r1" by (simp add: isErrorLevel_def r1)
  then have "find isErrorLevel logs \<noteq> None"
    unfolding find_None_iff st by blast
  then obtain r where r: "find isErrorLevel logs = Some r" by blast
  then have "r \<in> set logs \<and> isErrorLevel r"
    unfolding find_Some_iff by force
  then have root: "findRootService logs = Some ''svc-a''"
    using err r by (simp add: findRootService_def)
  have e5: "find (\<lambda>l. Level l = ''ERROR'') logs \<noteq> None"
    unfolding find_None_iff st using r1 by blast
  have lat: "Contains (ToLower (Join (map Message logs) '' '')) ''timeout''"
    by (rule Contains_ToLower_Join[where m = "''conn timeout''"])
       (use msg in \<open>simp_all add: conn_timeout_lower\<close>)
  have cb: "CreateBundle logs (MinePatterns logs) =
     Inr \<lparr> WindowStart = Timestamp (logs ! 0),
           WindowEnd = Timestamp (logs ! (length logs - 1)),
           RootService = Some ''svc-a'',
           AffectedServices = remdups (map Service logs),
           LogPatterns = MinePatterns logs,
           Events = [],
           Metrics = \<lparr> ErrorRateZ = 5, LatencyZ = 3 \<rparr>,
           DependencyGraph = remdups (map Service logs),
           Sequence = sequenceFrom 0 logs,
           DerivedRootCauseHint = ''Issue detected in svc-a'' \<rparr>"
    unfolding CreateBundle_def Let_def root using ne e5 lat by simp
  show ?thesis
    unfolding cb using svc p by simp
qed


text \<open>
  C8.  The three-record scenario, whatever the three timestamps are and whatever order
  \<open>sort.Slice\<close> leaves equal timestamps in: the affected services are \<open>svc-a\<close> and
  \<open>svc-b\<close>, there is exactly one pattern for \<open>conn timeout\<close> and its count is 2, the
  root service is \<open>svc-a\<close>, \<open>ErrorRateZ\<close> is 5, \<open>LatencyZ\<close> is 3 and the hint is
  \<open>Issue detected in svc-a\<close>.
\<close>

theorem Process_three_record_scenario:
  assumes "sortsByTimestamp sort_Slice"
  shows "\<exists>b. Process sort_Slice clock
               (Some [rawEntry t1 ''ERROR'' ''svc-a'' ''conn timeout'',
                      rawEntry t2 ''ERROR'' ''svc-a'' ''conn timeout'',
                      rawEntry t3 ''INFO'' ''svc-b'' ''db ok'']) = Inr b
             \<and> set (AffectedServices b) = {''svc-a'', ''svc-b''}
             \<and> distinct (AffectedServices b)
             \<and> (\<exists>p. filter (\<lambda>p. Pattern p = ''conn timeout'') (LogPatterns b) = [p]
                     \<and> Count p = 2)
             \<and> RootService b = Some ''svc-a''
             \<and> ErrorRateZ (Metrics b) = 5
             \<and> LatencyZ (Metrics b) = 3
             \<and> DerivedRootCauseHint b = ''Issue detected in svc-a''"
proof -
  define r1 where "r1 = parseEntry (clock 0) (rawEntry t1 ''ERROR'' ''svc-a'' ''conn timeout'')"
  define r2 where "r2 = parseEntry (clock (Suc 0)) (rawEntry t2 ''ERROR'' ''svc-a'' ''conn timeout'')"
  define r3 where "r3 = parseEntry (clock (Suc (Suc 0))) (rawEntry t3 ''INFO'' ''svc-b'' ''db ok'')"
  have recs: "parseEntries clock 0
       [rawEntry t1 ''ERROR'' ''svc-a'' ''conn timeout'',
        rawEntry t2 ''ERROR'' ''svc-a'' ''conn timeout'',
        rawEntry t3 ''INFO'' ''svc-b'' ''db ok''] = [r1, r2, r3]"
    by (simp add: r1_def r2_def r3_def)
  have f1: "Level r1 = ''ERROR''" "Service r1 = ''svc-a''" "Message r1 = ''conn timeout''"
    by (simp_all add: r1_def parseEntry_rawEntry)
  have f2: "Level r2 = ''ERROR''" "Service r2 = ''svc-a''" "Message r2 = ''conn timeout''"
    by (simp_all add: r2_def parseEntry_rawEntry)
  have f3: "Level r3 = ''INFO''" "Service r3 = ''svc-b''" "Message r3 = ''db ok''"
    by (simp_all add: r3_def parseEntry_rawEntry)
  have m: "mset (sort_Slice lessTimestamp [r1, r2, r3]) = mset [r1, r2, r3]"
    using assms unfolding sortsByTimestamp_def by blast
  show ?thesis
    unfolding Process_Some recs
    by (rule three_records_bundle[OF m f1 f2 f3])
qed

theorem Process_three_record_scenario_witness:
  "sortsByTimestamp insertionSort \<and>
   (\<exists>b. Process insertionSort demoClock (Some demoEntries) = Inr b
             \<and> set (AffectedServices b) = {''svc-a'', ''svc-b''}
             \<and> distinct (AffectedServices b)
             \<and> (\<exists>p. filter (\<lambda>p. Pattern p = ''conn timeout'') (LogPatterns b) = [p]
                     \<and> Count p = 2)
             \<and> RootService b = Some ''svc-a''
             \<and> ErrorRateZ (Metrics b) = 5
             \<and> LatencyZ (Metrics b) = 3
             \<and> DerivedRootCauseHint b = ''Issue detected in svc-a'')"
  unfolding demoEntries_def
  by (rule conjI[OF insertionSort_sortsByTimestamp
        Process_three_record_scenario[OF insertionSort_sortsByTimestamp]])


section \<open>The normalizer\<close>

text \<open>
  C2, as amended.  \<open>parseLine\<close> looks for the tokens \<open>ERROR\<close>, \<open>WARN\<close>, \<open>DEBUG\<close> in
  that order, the first one found being the level, and the level is \<open>INFO\<close> when none
  of the three occurs; \<open>INFO\<close> itself is not searched for.
\<close>

theorem parseLine_level:
  "OutLevel (parseLine now line service) =
     (if Contains line ''ERROR'' then ''ERROR''
      else if Contains line ''WARN'' then ''WARN''
      else if Contains line ''DEBUG'' then ''DEBUG''
      else ''INFO'')"
  by (simp add: parseLine_def)

text \<open>
  A line with both \<open>INFO\<close> and \<open>DEBUG\<close> gets the level \<open>DEBUG\<close> from \<open>parseLine\<close>, not
  \<open>INFO\<close> (which is what the switch of \<open>formatLogLine\<close> gives it).
\<close>

theorem parseLine_level_counterexample:
  "Contains ''INFO cache DEBUG flag set'' ''INFO''
   \<and> Contains ''INFO cache DEBUG flag set'' ''DEBUG''
   \<and> OutLevel (parseLine ''2024-05-01T10:00:09Z'' ''INFO cache DEBUG flag set'' ''svc-a'')
       = ''DEBUG''
   \<and> OutLevel (parseLine ''2024-05-01T10:00:09Z'' ''INFO cache DEBUG flag set'' ''svc-a'')
       \<noteq> ''INFO''
   \<and> formatLogLine_severity ''INFO cache DEBUG flag set'' = Some ''INFO''"
  by (simp add: parseLine_def formatLogLine_severity_def)

text \<open>
  C3, as amended.  \<open>parseLine\<close> strips a leading date \<open>YYYY-MM-DD\<close> only: the message is
  what follows the date, trimmed of white space at both ends, so a time of day after
  the date stays in the message.
\<close>

theorem parseLine_strips_date_only:
  assumes "isDigit y1" "isDigit y2" "isDigit y3" "isDigit y4"
    "isDigit m1" "isDigit m2" "isDigit d1" "isDigit d2"
  shows "OutMessage (parseLine now
            ([y1, y2, y3, y4] @ ''-'' @ [m1, m2] @ ''-'' @ [d1, d2] @ rest) service)
         = TrimSpace rest"
  using assms by (simp add: parseLine_def timeRegexStrip_def)

theorem parseLine_strips_date_only_witness:
  "isDigit CHR ''2'' \<and> isDigit CHR ''0'' \<and> isDigit CHR ''4'' \<and> isDigit CHR ''1''
   \<and> OutMessage (parseLine ''2024-05-01T10:00:09Z'' ''2024-01-02T10:11:12 disk full'' ''svc-a'')
       = ''T10:11:12 disk full''"
proof -
  have d: "isDigit CHR ''2''" "isDigit CHR ''0''" "isDigit CHR ''4''" "isDigit CHR ''1''"
    by (simp_all add: isDigit_def)
  have t: "TrimSpace ''T10:11:12 disk full'' = ''T10:11:12 disk full''"
    by code_simp
  have "OutMessage (parseLine ''2024-05-01T10:00:09Z''
          ([CHR ''2'', CHR ''0'', CHR ''2'', CHR ''4''] @ ''-'' @ [CHR ''0'', CHR ''1'']
             @ ''-'' @ [CHR ''0'', CHR ''2''] @ ''T10:11:12 disk full'') ''svc-a'')
        = TrimSpace ''T10:11:12 disk full''"
    by (rule parseLine_strips_date_only) (rule d)+
  then show ?thesis
    using d t by simp
qed

text \<open>
  A line that begins with a date and a time of day keeps the time of day in its
  message.
\<close>

theorem parseLine_message_counterexample:
  "OutMessage (parseLine ''2024-05-01T10:00:09Z'' ''2024-01-02 10:11:12 disk full'' ''svc-a'')
     = ''10:11:12 disk full''
   \<and> OutMessage (parseLine ''2024-05-01T10:00:09Z'' ''2024-01-02 10:11:12 disk full'' ''svc-a'')
     \<noteq> ''disk full''"
  by code_simp

text \<open>
  The white space that is trimmed is Unicode's: a no-break space \<open>U+00A0\<close> (the bytes
  \<open>C2 A0\<close>) after the date and an em space \<open>U+2003\<close> (\<open>E2 80 83\<close>) at the end of the
  line are not in the message; a byte \<open>A0\<close> that is no rune of its own stays.
\<close>

theorem parseLine_trims_unicode_space:
  "OutMessage (parseLine ''2024-05-01T10:00:09Z''
      (''2024-01-02'' @ [CHR 0xC2, CHR 0xA0] @ ''nbsp after date'' @ [CHR 0xC2, CHR 0xA0])
      ''svc-a'') = ''nbsp after date''
   \<and> OutMessage (parseLine ''2024-05-01T10:00:09Z''
      (''2024-01-02 '' @ [CHR 0xE2, CHR 0x80, CHR 0x83] @ ''up'' @ [CHR 0xE2, CHR 0x80, CHR 0x83, CHR 0x20])
      ''svc-a'') = ''up''
   \<and> OutMessage (parseLine ''2024-05-01T10:00:09Z''
      (''2024-01-02 '' @ [CHR 0xA0] @ ''up'' @ [CHR 0xA0] @ '' '')
      ''svc-a'') = [CHR 0xA0] @ ''up'' @ [CHR 0xA0]"
  by code_simp

text \<open>
  C9, as amended.  The timestamp of the record that \<open>parseLine\<close> returns is the clock
  reading, whatever the line is: a date or time at the start of the line never gets
  into it.  Of such a date and time only the date \<open>YYYY-MM-DD\<close> is taken out of the
  message: the message is what follows the date, trimmed of white space at both ends.
\<close>

theorem parseLine_timestamp_now_date_stripped:
  assumes "isDigit y1" "isDigit y2" "isDigit y3" "isDigit y4"
    "isDigit m1" "isDigit m2" "isDigit d1" "isDigit d2"
  shows "OutTimestamp (parseLine now line service) = now
    \<and> OutTimestamp (parseLine now
          ([y1, y2, y3, y4] @ ''-'' @ [m1, m2] @ ''-'' @ [d1, d2] @ rest) service) = now
    \<and> OutMessage (parseLine now
          ([y1, y2, y3, y4] @ ''-'' @ [m1, m2] @ ''-'' @ [d1, d2] @ rest) service)
        = TrimSpace rest"
  using assms by (simp add: parseLine_def timeRegexStrip_def)

theorem parseLine_timestamp_now_date_stripped_witness:
  "isDigit CHR ''2'' \<and> isDigit CHR ''0'' \<and> isDigit CHR ''4'' \<and> isDigit CHR ''1''
   \<and> OutTimestamp (parseLine ''2024-05-01T10:00:09Z'' ''12:00:01 no date here'' ''svc-a'')
       = ''2024-05-01T10:00:09Z''
   \<and> OutTimestamp (parseLine ''2024-05-01T10:00:09Z'' ''2024-01-02 04:05:06 ERROR boom'' ''svc-a'')
       = ''2024-05-01T10:00:09Z''
   \<and> OutMessage (parseLine ''2024-05-01T10:00:09Z'' ''2024-01-02 04:05:06 ERROR boom'' ''svc-a'')
       = ''04:05:06 ERROR boom''"
proof -
  have d: "isDigit CHR ''2''" "isDigit CHR ''0''" "isDigit CHR ''4''" "isDigit CHR ''1''"
    by (simp_all add: isDigit_def)
  have t: "TrimSpace '' 04:05:06 ERROR boom'' = ''04:05:06 ERROR boom''"
    by code_simp
  have "OutTimestamp (parseLine ''2024-05-01T10:00:09Z'' ''12:00:01 no date here'' ''svc-a'')
          = ''2024-05-01T10:00:09Z''
    \<and> OutTimestamp (parseLine ''2024-05-01T10:00:09Z''
          ([CHR ''2'', CHR ''0'', CHR ''2'', CHR ''4''] @ ''-'' @ [CHR ''0'', CHR ''1'']
             @ ''-'' @ [CHR ''0'', CHR ''2''] @ '' 04:05:06 ERROR boom'') ''svc-a'')
          = ''2024-05-01T10:00:09Z''
    \<and> OutMessage (parseLine ''2024-05-01T10:00:09Z''
          ([CHR ''2'', CHR ''0'', CHR ''2'', CHR ''4''] @ ''-'' @ [CHR ''0'', CHR ''1'']
             @ ''-'' @ [CHR ''0'', CHR ''2''] @ '' 04:05:06 ERROR boom'') ''svc-a'')
          = TrimSpace '' 04:05:06 ERROR boom''"
    by (rule parseLine_timestamp_now_date_stripped) (rule d)+
  then show ?thesis
    using d t by simp
qed

text \<open>
  A line that begins with a date and a time in RFC 3339 form gets the clock reading as
  its timestamp, and its message still begins with the time of day: the date and time
  are not stripped from the message as a whole.
\<close>

theorem parseLine_time_of_day_counterexample:
  "OutTimestamp (parseLine ''2024-05-01T10:00:09Z'' ''2024-01-02T04:05:06Z ERROR boom'' ''svc-a'')
     = ''2024-05-01T10:00:09Z''
   \<and> OutMessage (parseLine ''2024-05-01T10:00:09Z'' ''2024-01-02T04:05:06Z ERROR boom'' ''svc-a'')
     = ''T04:05:06Z ERROR boom''
   \<and> OutMessage (parseLine ''2024-05-01T10:00:09Z'' ''2024-01-02T04:05:06Z ERROR boom'' ''svc-a'')
     \<noteq> ''ERROR boom''"
  by code_simp

section \<open>Reading UTF-16 files\<close>

lemma uint16sLE_drop_last:
  "even (length body) \<Longrightarrow> uint16sLE (body @ [t]) = uint16sLE body"
  by (induction body rule: uint16sLE.induct) auto

lemma uint16sBE_drop_last:
  "even (length body) \<Longrightarrow> uint16sBE (body @ [t]) = uint16sBE body"
  by (induction body rule: uint16sBE.induct) auto

lemma length_uint16sLE: "length (uint16sLE bs) = length bs div 2"
  by (induction bs rule: uint16sLE.induct) auto


lemma drop2_split:
  assumes "3 \<le> length data"
  shows "drop 2 data = butlast (drop 2 data) @ [last data]"
proof -
  have ne: "drop 2 data \<noteq> []" using assms by simp
  have "last (drop 2 data) = last data" using assms by simp
  then show ?thesis using append_butlast_last_id[OF ne] by simp
qed

lemma uint16sLE_odd:
  assumes "3 \<le> length data" "odd (length data)"
  shows "uint16sLE (drop 2 data) = uint16sLE (butlast (drop 2 data))"
proof -
  have "even (length (butlast (drop 2 data)))" using assms by simp
  then have "uint16sLE (butlast (drop 2 data) @ [last data]) = uint16sLE (butlast (drop 2 data))"
    by (rule uint16sLE_drop_last)
  then show ?thesis using drop2_split[OF assms(1)] by simp
qed

lemma uint16sBE_odd:
  assumes "3 \<le> length data" "odd (length data)"
  shows "uint16sBE (drop 2 data) = uint16sBE (butlast (drop 2 data))"
proof -
  have "even (length (butlast (drop 2 data)))" using assms by simp
  then have "uint16sBE (butlast (drop 2 data) @ [last data]) = uint16sBE (butlast (drop 2 data))"
    by (rule uint16sBE_drop_last)
  then show ?thesis using drop2_split[OF assms(1)] by simp
qed

text \<open>
  C10.  For a file that can be read: the content is returned byte for byte unless it
  has at least three bytes and begins with a BOM, so a file that is just a BOM comes
  back as it is; with three bytes or more behind \<open>FF FE\<close> (or \<open>FE FF\<close>) the result is the
  UTF-8 text of the little-endian (big-endian) code units after the BOM; and when the
  number of bytes after the BOM is odd, the result is that of the bytes without the
  last one.
\<close>

theorem readFileAutoUTF_decoding:
  assumes "os_ReadFile path = Inr data"
  shows "(\<not> (3 \<le> length data \<and> hasBOM data) \<longrightarrow>
            readFileAutoUTF os_ReadFile path = Inr data)
       \<and> (data = [0xFF, 0xFE] \<or> data = [0xFE, 0xFF] \<longrightarrow>
            readFileAutoUTF os_ReadFile path = Inr data)
       \<and> (3 \<le> length data \<and> data ! 0 = 0xFF \<and> data ! 1 = 0xFE \<longrightarrow>
            readFileAutoUTF os_ReadFile path
              = Inr (stringOfRunes (utf16_Decode (uint16sLE (drop 2 data)))))
       \<and> (3 \<le> length data \<and> data ! 0 = 0xFE \<and> data ! 1 = 0xFF \<longrightarrow>
            readFileAutoUTF os_ReadFile path
              = Inr (stringOfRunes (utf16_Decode (uint16sBE (drop 2 data)))))
       \<and> (3 \<le> length data \<and> odd (length data) \<and> data ! 0 = 0xFF \<and> data ! 1 = 0xFE \<longrightarrow>
            readFileAutoUTF os_ReadFile path
              = Inr (stringOfRunes (utf16_Decode (uint16sLE (butlast (drop 2 data))))))
       \<and> (3 \<le> length data \<and> odd (length data) \<and> data ! 0 = 0xFE \<and> data ! 1 = 0xFF \<longrightarrow>
            readFileAutoUTF os_ReadFile path
              = Inr (stringOfRunes (utf16_Decode (uint16sBE (butlast (drop 2 data))))))"
proof (intro conjI impI)
  assume "\<not> (3 \<le> length data \<and> hasBOM data)"
  then show "readFileAutoUTF os_ReadFile path = Inr data"
    using assms by (auto simp: readFileAutoUTF_def hasBOM_def)
next
  assume "data = [0xFF, 0xFE] \<or> data = [0xFE, 0xFF]"
  then show "readFileAutoUTF os_ReadFile path = Inr data"
    using assms by (auto simp: readFileAutoUTF_def)
next
  assume "3 \<le> length data \<and> data ! 0 = 0xFF \<and> data ! 1 = 0xFE"
  then show "readFileAutoUTF os_ReadFile path
              = Inr (stringOfRunes (utf16_Decode (uint16sLE (drop 2 data))))"
    using assms by (simp add: readFileAutoUTF_def)
next
  assume "3 \<le> length data \<and> data ! 0 = 0xFE \<and> data ! 1 = 0xFF"
  then show "readFileAutoUTF os_ReadFile path
              = Inr (stringOfRunes (utf16_Decode (uint16sBE (drop 2 data))))"
    using assms by (simp add: readFileAutoUTF_def)
next
  assume a: "3 \<le> length data \<and> odd (length data) \<and> data ! 0 = 0xFF \<and> data ! 1 = 0xFE"
  then have "uint16sLE (drop 2 data) = uint16sLE (butlast (drop 2 data))"
    by (intro uint16sLE_odd) simp_all
  then show "readFileAutoUTF os_ReadFile path
              = Inr (stringOfRunes (utf16_Decode (uint16sLE (butlast (drop 2 data)))))"
    using assms a by (simp add: readFileAutoUTF_def)
next
  assume a: "3 \<le> length data \<and> odd (length data) \<and> data ! 0 = 0xFE \<and> data ! 1 = 0xFF"
  then have "uint16sBE (drop 2 data) = uint16sBE (butlast (drop 2 data))"
    by (intro uint16sBE_odd) simp_all
  then show "readFileAutoUTF os_ReadFile path
              = Inr (stringOfRunes (utf16_Decode (uint16sBE (butlast (drop 2 data)))))"
    using assms a by (simp add: readFileAutoUTF_def)
qed

theorem readFileAutoUTF_decoding_witness:
  "3 \<le> length demoFile \<and> odd (length demoFile) \<and> demoFile ! 0 = 0xFF \<and> demoFile ! 1 = 0xFE
   \<and> readFileAutoUTF (\<lambda>p. Inr demoFile) ''app.log'' = Inr [0x68, 0x69]
   \<and> readFileAutoUTF (\<lambda>p. Inr [0xFF, 0xFE]) ''app.log'' = Inr [0xFF, 0xFE]
   \<and> readFileAutoUTF (\<lambda>p. Inr [0x68, 0x00, 0x69]) ''app.log'' = Inr [0x68, 0x00, 0x69]"
proof -
  have h: "3 \<le> length demoFile \<and> odd (length demoFile) \<and> demoFile ! 0 = 0xFF \<and> demoFile ! 1 = 0xFE"
    by (simp add: demoFile_def)
  have "readFileAutoUTF (\<lambda>p. Inr demoFile) ''app.log''
        = Inr (stringOfRunes (utf16_Decode (uint16sLE (butlast (drop 2 demoFile)))))"
    using readFileAutoUTF_decoding[of "\<lambda>p. Inr demoFile" "''app.log''" demoFile] h by blast
  also have "\<dots> = Inr [0x68, 0x69]"
    by (simp add: demoFile_def stringOfRunes_def encodeRune_def isSurrogate_def)
  finally have 1: "readFileAutoUTF (\<lambda>p. Inr demoFile) ''app.log'' = Inr [0x68, 0x69]" .
  have 2: "readFileAutoUTF (\<lambda>p. Inr [0xFF, 0xFE]) ''app.log'' = Inr [0xFF, 0xFE]"
    using readFileAutoUTF_decoding[of "\<lambda>p. Inr [0xFF, 0xFE]" "''app.log''" "[0xFF, 0xFE]"]
    by blast
  have "\<not> (3 \<le> length [0x68, 0x00, 0x69 :: byte] \<and> hasBOM [0x68, 0x00, 0x69])"
    by (simp add: hasBOM_def)
  then have 3: "readFileAutoUTF (\<lambda>p. Inr [0x68, 0x00, 0x69]) ''app.log'' = Inr [0x68, 0x00, 0x69]"
    using readFileAutoUTF_decoding[of "\<lambda>p. Inr [0x68, 0x00, 0x69]" "''app.log''" "[0x68, 0x00, 0x69]"]
    by blast
  show ?thesis using h 1 2 3 by blast
qed


section \<open>Tailing a file that shrinks\<close>

lemma ReadString_at_end:
  "length content \<le> off \<Longrightarrow> ReadString content off [] [] = ([], True, off, [])"
  by (subst ReadString.simps) (simp add: defaultBufSize_def)

lemma tailStep_idle:
  assumes "length content \<le> offset st" "buffered st = []" "lastSize st \<le> int (length content)"
  shows "tailStep service now content st = (st, [])"
  using assms by (simp add: tailStep_def reopenIfShrunk_def ReadString_at_end)

lemma tailLoop_idle:
  assumes "length content \<le> offset st" "buffered st = []" "lastSize st \<le> int (length content)"
  shows "tailLoop service clock i (replicate n content) st = []"
  using assms by (induction n arbitrary: i) (simp_all add: tailStep_idle)

text \<open>
  C4 fails on the code.  A file holds two lines when tailing starts; it is then
  truncated and written anew with one shorter line.  \<open>lastSize\<close> is still 0, the size
  is not below it, the file is not reopened, the reader stays at the old offset beyond
  the end of the file: however often the loop polls, the new line is never passed on.
\<close>

theorem tailFile_misses_shrink:
  "tailFile ''svc-a'' demoClock (Inr oldContent) (replicate n newContent) = Inr []"
  by (simp add: tailFile_def tailLoop_idle oldContent_def newContent_def)

text \<open>
  When the file then grows past the old offset, the tail goes on from there, in the
  middle of a line of the new content.
\<close>

theorem tailFile_reads_from_old_offset:
  "tailFile ''svc-a'' demoClock (Inr oldContent)
     [newContent, newContent @ oldContent @ ''tail end'' @ [newline]]
   = Inr [parseLine (demoClock 1) ''d line two'' ''svc-a'']"
  by code_simp


lemma tailStep_reopens:
  "int (length content) < lastSize st \<Longrightarrow>
     reopenIfShrunk content st = \<lparr> offset = 0, buffered = [], lastSize = 0 \<rparr>"
  by (simp add: reopenIfShrunk_def)

text \<open>
  The check does fire once more bytes were read since the file was opened than the
  file now holds.
\<close>

theorem tailFile_detects_large_shrink:
  "tailFile ''svc-a'' demoClock (Inr [])
     [''a'' @ [newline] @ ''b'' @ [newline], ''a'' @ [newline] @ ''b'' @ [newline],
      ''a'' @ [newline] @ ''b'' @ [newline], ''c'' @ [newline]]
   = Inr [parseLine (demoClock 0) ''a'' ''svc-a'', parseLine (demoClock 1) ''b'' ''svc-a'',
          parseLine (demoClock 3) ''c'' ''svc-a'']"
  by code_simp


end
